theory Spec2Isabelle
  imports Main
begin

section \<open>The cluster: API objects and the client calls the code makes\<close>

text \<open>
  The agent deployment service talks to a Kubernetes API server through client-go.
  The server's objects are maps from (namespace, name) to the object; every client
  call either fails with an API status or acts on the maps. A call can fail for
  reasons outside the program (network, conflict, rate limiting): the cluster carries
  a schedule of injected faults, and each call consumes the head of the schedule
  (\<open>None\<close>: the call goes through).
\<close>

datatype api_status = NotFound | AlreadyExists | Conflict | Unavailable | Canceled

datatype go_error =
    ApiError api_status
  | Wrapped string go_error
  | KeyFormatError string

datatype log_entry = Info string | Error string | ErrorWith string go_error | Handled go_error

text \<open>How a call ends: it returns, it blocks (a channel operation or a queue read that
  has to wait for another goroutine), or it panics.\<close>

datatype 'a outcome = Returned 'a | Blocked | Panicked string

record container =
  c_name :: string
  c_image :: string
  c_command :: "string list"

record pod =
  pod_name :: string
  pod_namespace :: string
  pod_labels :: "(string \<times> string) list"
  pod_containers :: "container list"

text \<open>An Agent custom resource, read as \<open>unstructured.Unstructured\<close>: its name, its
  namespace and the rest of its content as fields.\<close>

record agent =
  a_name :: string
  a_namespace :: string
  a_fields :: "(string \<times> string) list"

record deployment =
  d_name :: string
  d_labels :: "(string \<times> string) list"
  d_replicas :: "int option"
  d_selector :: "(string \<times> string) list option"
  d_template_labels :: "(string \<times> string) list"
  d_containers :: "container list"

record cluster =
  agents :: "string \<times> string \<rightharpoonup> agent"
  pods :: "string \<times> string \<rightharpoonup> pod"
  deployments :: "string \<times> string \<rightharpoonup> deployment"
  faults :: "api_status option list"
  klog :: "log_entry list"

definition next_fault :: "cluster \<Rightarrow> api_status option \<times> cluster" where
  "next_fault c =
     (case faults c of
        [] \<Rightarrow> (None, c)
      | f # fs \<Rightarrow> (f, c\<lparr>faults := fs\<rparr>))"

text \<open>A \<open>context.Context\<close> is modelled by whether it is done (cancelled): a client call
  given a done context fails with \<open>Canceled\<close> before it reaches the server.\<close>

type_synonym ctx = bool

definition api_call :: "ctx \<Rightarrow> cluster \<Rightarrow> api_status option \<times> cluster" where
  "api_call done c = (if done then (Some Canceled, c) else next_fault c)"

definition log_line :: "log_entry \<Rightarrow> cluster \<Rightarrow> cluster" where
  "log_line l c = c\<lparr>klog := klog c @ [l]\<rparr>"

definition IsNotFound :: "go_error \<Rightarrow> bool" where
  "IsNotFound e = (e = ApiError NotFound)"

definition pods_Get :: "ctx \<Rightarrow> string \<Rightarrow> string \<Rightarrow> cluster \<Rightarrow> (go_error + pod) \<times> cluster" where
  "pods_Get done ns n c =
     (case api_call done c of
        (Some e, c') \<Rightarrow> (Inl (ApiError e), c')
      | (None, c') \<Rightarrow>
          (case pods c' (ns, n) of
             None \<Rightarrow> (Inl (ApiError NotFound), c')
           | Some p \<Rightarrow> (Inr p, c')))"

definition pods_Create :: "ctx \<Rightarrow> string \<Rightarrow> pod \<Rightarrow> cluster \<Rightarrow> go_error option \<times> cluster" where
  "pods_Create done ns p c =
     (case api_call done c of
        (Some e, c') \<Rightarrow> (Some (ApiError e), c')
      | (None, c') \<Rightarrow>
          (case pods c' (ns, pod_name p) of
             Some _ \<Rightarrow> (Some (ApiError AlreadyExists), c')
           | None \<Rightarrow> (None, c'\<lparr>pods := (pods c')((ns, pod_name p) \<mapsto> p)\<rparr>)))"

definition agents_Get :: "ctx \<Rightarrow> string \<Rightarrow> string \<Rightarrow> cluster \<Rightarrow> (go_error + agent) \<times> cluster" where
  "agents_Get done ns n c =
     (case api_call done c of
        (Some e, c') \<Rightarrow> (Inl (ApiError e), c')
      | (None, c') \<Rightarrow>
          (case agents c' (ns, n) of
             None \<Rightarrow> (Inl (ApiError NotFound), c')
           | Some a \<Rightarrow> (Inr a, c')))"

definition deployments_Get ::
  "ctx \<Rightarrow> string \<Rightarrow> string \<Rightarrow> cluster \<Rightarrow> (go_error + deployment) \<times> cluster" where
  "deployments_Get done ns n c =
     (case api_call done c of
        (Some e, c') \<Rightarrow> (Inl (ApiError e), c')
      | (None, c') \<Rightarrow>
          (case deployments c' (ns, n) of
             None \<Rightarrow> (Inl (ApiError NotFound), c')
           | Some d \<Rightarrow> (Inr d, c')))"

definition deployments_Create ::
  "ctx \<Rightarrow> string \<Rightarrow> deployment \<Rightarrow> cluster \<Rightarrow> go_error option \<times> cluster" where
  "deployments_Create done ns d c =
     (case api_call done c of
        (Some e, c') \<Rightarrow> (Some (ApiError e), c')
      | (None, c') \<Rightarrow>
          (case deployments c' (ns, d_name d) of
             Some _ \<Rightarrow> (Some (ApiError AlreadyExists), c')
           | None \<Rightarrow> (None, c'\<lparr>deployments := (deployments c')((ns, d_name d) \<mapsto> d)\<rparr>)))"

definition deployments_Update ::
  "ctx \<Rightarrow> string \<Rightarrow> deployment \<Rightarrow> cluster \<Rightarrow> go_error option \<times> cluster" where
  "deployments_Update done ns d c =
     (case api_call done c of
        (Some e, c') \<Rightarrow> (Some (ApiError e), c')
      | (None, c') \<Rightarrow>
          (case deployments c' (ns, d_name d) of
             None \<Rightarrow> (Some (ApiError NotFound), c')
           | Some _ \<Rightarrow> (None, c'\<lparr>deployments := (deployments c')((ns, d_name d) \<mapsto> d)\<rparr>)))"

definition deployments_Delete ::
  "ctx \<Rightarrow> string \<Rightarrow> string \<Rightarrow> cluster \<Rightarrow> go_error option \<times> cluster" where
  "deployments_Delete done ns n c =
     (case api_call done c of
        (Some e, c') \<Rightarrow> (Some (ApiError e), c')
      | (None, c') \<Rightarrow>
          (case deployments c' (ns, n) of
             None \<Rightarrow> (Some (ApiError NotFound), c')
           | Some _ \<Rightarrow> (None, c'\<lparr>deployments := (deployments c')((ns, n) := None)\<rparr>)))"


section \<open>The controller of docs/alt/main.go\<close>

subsection \<open>K8sAdapter.Reconcile\<close>

text \<open>\<open>context.TODO()\<close> is never done.\<close>

definition TODO :: ctx where
  "TODO = False"

definition agent_pod :: "string \<Rightarrow> string \<Rightarrow> pod" where
  "agent_pod ns podName =
     \<lparr>pod_name = podName, pod_namespace = ns,
      pod_labels = [(''app'', ''ai-agent'')],
      pod_containers =
        [\<lparr>c_name = ''agent-container'', c_image = ''busybox'',
          c_command = [''sleep'', ''3600'']\<rparr>]\<rparr>"

definition Reconcile :: "string \<Rightarrow> agent \<Rightarrow> cluster \<Rightarrow> go_error option \<times> cluster" where
  "Reconcile ns a c =
     (let agentName = a_name a;
          podName = agentName @ ''-pod''
      in case pods_Get TODO ns podName c of
           (Inr _, c1) \<Rightarrow>
             (None,
              log_line (Info (''Pod '' @ podName @ '' already exists for agent '' @ agentName)) c1)
         | (Inl err, c1) \<Rightarrow>
             if \<not> IsNotFound err then (Some err, c1)
             else
               (case pods_Create TODO ns (agent_pod ns podName) c1 of
                  (Some err', c2) \<Rightarrow> (Some err', c2)
                | (None, c2) \<Rightarrow>
                    (None,
                     log_line (Info (''Deployed Pod '' @ podName @ '' for agent '' @ agentName)) c2)))"

subsection \<open>Controller.reconcile\<close>

text \<open>\<open>strings.Split(key, "/")\<close> and client-go's \<open>cache.SplitMetaNamespaceKey\<close>: one
  part is a name in the empty namespace, two parts are namespace and name, anything
  else is an error.\<close>

fun split_slash :: "string \<Rightarrow> string list" where
  "split_slash [] = [[]]"
| "split_slash (x # xs) =
     (if x = CHR ''/'' then [] # split_slash xs
      else (case split_slash xs of
              [] \<Rightarrow> [[x]]
            | p # ps \<Rightarrow> (x # p) # ps))"

definition SplitMetaNamespaceKey :: "string \<Rightarrow> go_error + (string \<times> string)" where
  "SplitMetaNamespaceKey key =
     (case split_slash key of
        [n] \<Rightarrow> Inr ('''', n)
      | [ns, n] \<Rightarrow> Inr (ns, n)
      | _ \<Rightarrow> Inl (KeyFormatError key))"

definition reconcile :: "string \<Rightarrow> string \<Rightarrow> cluster \<Rightarrow> go_error option \<times> cluster" where
  "reconcile adapter_ns key c =
     (case SplitMetaNamespaceKey key of
        Inl err \<Rightarrow> (Some err, c)
      | Inr (namespace, n) \<Rightarrow>
          (case agents_Get TODO namespace n c of
             (Inl err, c1) \<Rightarrow>
               if IsNotFound err
               then (None, log_line (Info (''Agent '' @ key @ '' deleted'')) c1)
               else (Some err, c1)
           | (Inr a, c1) \<Rightarrow> Reconcile adapter_ns a c1))"


subsection \<open>The work queue\<close>

text \<open>
  The controller's queue is client-go's rate-limiting work queue
  (\<open>workqueue.NewNamedRateLimitingQueue(workqueue.DefaultControllerRateLimiter(), ...)\<close>),
  a library whose code is not part of the repository's sources. Its operations are
  modelled from the specification's section 4.2 (Work Queue). The code calls them
  \<open>Add\<close> (\<open>Enqueue\<close>), \<open>Get\<close> (\<open>Dequeue\<close>), \<open>Done\<close>, \<open>Forget\<close>, \<open>NumRequeues\<close> (the retry
  count), \<open>AddRateLimited\<close> (\<open>AddAfter\<close> with the backoff delay) and \<open>ShutDown\<close>.
  The base delay and the maximum delay of the rate limiter are parameters.
\<close>

text \<open>Modelled from the spec: the state of the missing work queue, "its pending set,
  in-flight set, and dirty set" (section 5), whether it has been shut down, the retry
  count of each key, and the keys that wait for a backoff delay to elapse (they are
  not pending until then).\<close>

record workqueue =
  pending :: "string list"
  inflight :: "string set"
  dirty :: "string set"
  closed :: bool
  retry_count :: "string \<Rightarrow> nat"
  delayed :: "(string \<times> nat) list"
  base_delay :: nat
  max_delay :: nat

text \<open>Modelled from the spec: the empty queue a controller starts with (the library's
  constructor is missing from the sources).\<close>

definition new_queue :: "nat \<Rightarrow> nat \<Rightarrow> workqueue" where
  "new_queue base cap =
     \<lparr>pending = [], inflight = {}, dirty = {}, closed = False,
      retry_count = (\<lambda>_. 0), delayed = [], base_delay = base, max_delay = cap\<rparr>"

text \<open>Modelled from the spec: \<open>Enqueue(key)\<close> of the missing work queue: "idempotent; if
  key is already pending, no-op; if key is currently being processed by a worker, mark
  it dirty so it is re-enqueued exactly once immediately after the in-flight run
  finishes"; after \<open>ShutDown\<close> "no further enqueues are accepted".\<close>

definition Enqueue :: "string \<Rightarrow> workqueue \<Rightarrow> workqueue" where
  "Enqueue key q =
     (if closed q then q
      else if key \<in> set (pending q) then q
      else if key \<in> inflight q then q\<lparr>dirty := insert key (dirty q)\<rparr>
      else q\<lparr>pending := pending q @ [key]\<rparr>)"

text \<open>Modelled from the spec: \<open>Dequeue()\<close> of the missing work queue: "blocks the calling
  worker until a key is available", returns keys in FIFO order and marks the key in
  flight; after \<open>ShutDown\<close> it returns "a closed signal once drained" (\<open>None\<close> here).\<close>

definition Dequeue :: "workqueue \<Rightarrow> (string option \<times> workqueue) outcome" where
  "Dequeue q =
     (case pending q of
        [] \<Rightarrow> if closed q then Returned (None, q) else Blocked
      | key # ks \<Rightarrow> Returned (Some key, q\<lparr>pending := ks, inflight := insert key (inflight q)\<rparr>))"

text \<open>Modelled from the spec: \<open>Done(key)\<close> of the missing work queue: "releases the per-key
  lock and, if the key was marked dirty, re-enqueues it".\<close>

definition Done :: "string \<Rightarrow> workqueue \<Rightarrow> workqueue" where
  "Done key q =
     (if key \<in> dirty q
      then q\<lparr>inflight := inflight q - {key}, dirty := dirty q - {key},
             pending := pending q @ [key]\<rparr>
      else q\<lparr>inflight := inflight q - {key}\<rparr>)"

text \<open>Modelled from the spec: \<open>Forget(key)\<close> of the missing work queue: "resets a key's
  retry counter", "to zero".\<close>

definition Forget :: "string \<Rightarrow> workqueue \<Rightarrow> workqueue" where
  "Forget key q = q\<lparr>retry_count := (retry_count q)(key := 0)\<rparr>"

text \<open>Modelled from the spec: the retry count of a key, which the code reads with
  \<open>NumRequeues\<close>.\<close>

definition NumRequeues :: "string \<Rightarrow> workqueue \<Rightarrow> nat" where
  "NumRequeues key q = retry_count q key"

text \<open>Modelled from the spec: the delay of the missing rate limiter: "exponential
  backoff (base delay doubling per retry, capped at a maximum) keyed by retry_count".\<close>

definition backoff :: "nat \<Rightarrow> nat \<Rightarrow> nat \<Rightarrow> nat" where
  "backoff base cap n = min (base * 2 ^ n) cap"

text \<open>Modelled from the spec: \<open>AddAfter(key, delay)\<close> of the missing work queue, "used for
  retry backoff": the key waits for the delay and is enqueued when it has elapsed
  (\<open>delay_elapsed\<close>); with no delay it is enqueued at once. A closed queue accepts
  nothing.\<close>

definition AddAfter :: "string \<Rightarrow> nat \<Rightarrow> workqueue \<Rightarrow> workqueue" where
  "AddAfter key d q =
     (if closed q then q
      else if d = 0 then Enqueue key q
      else q\<lparr>delayed := delayed q @ [(key, d)]\<rparr>)"

text \<open>Modelled from the spec: the delay of the \<open>i\<close>-th waiting key elapses and the
  missing work queue enqueues it ("\<open>AddAfter\<close> schedules future availability").\<close>

definition delay_elapsed :: "nat \<Rightarrow> workqueue \<Rightarrow> workqueue option" where
  "delay_elapsed i q =
     (if i < length (delayed q)
      then Some (Enqueue (fst (delayed q ! i))
                   (q\<lparr>delayed := take i (delayed q) @ drop (Suc i) (delayed q)\<rparr>))
      else None)"

text \<open>Modelled from the spec: the delay the missing rate limiter gives a key at its
  present retry count.\<close>

definition current_delay :: "string \<Rightarrow> workqueue \<Rightarrow> nat" where
  "current_delay key q = backoff (base_delay q) (max_delay q) (retry_count q key)"

text \<open>Modelled from the spec: \<open>AddRateLimited(key)\<close> of the missing work queue: \<open>AddAfter\<close>
  with the key's present delay, the retry count incremented ("retry_count incremented
  on reconcile failure").\<close>

definition AddRateLimited :: "string \<Rightarrow> workqueue \<Rightarrow> workqueue" where
  "AddRateLimited key q =
     AddAfter key (current_delay key q)
       (q\<lparr>retry_count := (retry_count q)(key := Suc (retry_count q key))\<rparr>)"

text \<open>Modelled from the spec: \<open>ShutDown()\<close> of the missing work queue: it "closes the
  queue".\<close>

definition ShutDown :: "workqueue \<Rightarrow> workqueue" where
  "ShutDown q = q\<lparr>closed := True\<rparr>"


subsection \<open>Controller.processNextItem\<close>

datatype worker = Until | Getting | Reconciling string | Gone

datatype run_pc = NotStarted | WaitingForSync | Serving | Finished

text \<open>The \<open>Controller\<close> struct (the two clients are the cluster, the reconciler is the
  \<open>K8sAdapter\<close> with its namespace; the resync period only makes the informer repeat
  its notifications), and the state of a run: the informer, the stop channel, where
  \<open>Run\<close> stands, its argument \<open>workers\<close>, and the worker goroutines it has started.\<close>

record controller =
  world :: cluster
  queue :: workqueue
  adapter_ns :: string
  maxRetries :: int
  informer_started :: bool
  HasSynced :: bool
  stopCh_closed :: bool
  run_at :: run_pc
  run_workers :: int
  workers :: "worker list"

definition NewController ::
  "go_error option \<Rightarrow> go_error option \<Rightarrow> string \<Rightarrow> nat \<Rightarrow> nat \<Rightarrow> cluster
     \<Rightarrow> go_error + controller" where
  "NewController kube_err dyn_err namespace base cap w =
     (case kube_err of
        Some err \<Rightarrow> Inl err
      | None \<Rightarrow>
          (case dyn_err of
             Some err \<Rightarrow> Inl err
           | None \<Rightarrow>
               Inr \<lparr>world = w, queue = new_queue base cap, adapter_ns = namespace,
                    maxRetries = 5, informer_started = False, HasSynced = False,
                    stopCh_closed = False, run_at = NotStarted, run_workers = 0,
                    workers = []\<rparr>))"

text \<open>What \<open>processNextItem\<close> does with the key it got: reconcile, then \<open>Forget\<close> on
  success, \<open>AddRateLimited\<close> while the retry count is below \<open>maxRetries\<close>, \<open>HandleError\<close> and
  \<open>Forget\<close> otherwise; the deferred \<open>Done\<close> runs last in every case.\<close>

definition finish_item :: "string \<Rightarrow> controller \<Rightarrow> controller" where
  "finish_item key c =
     (case reconcile (adapter_ns c) key (world c) of
        (None, w) \<Rightarrow> c\<lparr>world := w, queue := Done key (Forget key (queue c))\<rparr>
      | (Some err, w) \<Rightarrow>
          if int (NumRequeues key (queue c)) < maxRetries c
          then c\<lparr>world := log_line (ErrorWith (''Error reconciling '' @ key) err) w,
                 queue := Done key (AddRateLimited key (queue c))\<rparr>
          else c\<lparr>world := log_line (Handled err) w,
                 queue := Done key (Forget key (queue c))\<rparr>)"

definition processNextItem :: "controller \<Rightarrow> (bool \<times> controller) outcome" where
  "processNextItem c =
     (case Dequeue (queue c) of
        Blocked \<Rightarrow> Blocked
      | Panicked m \<Rightarrow> Panicked m
      | Returned (None, q) \<Rightarrow> Returned (False, c\<lparr>queue := q\<rparr>)
      | Returned (Some key, q) \<Rightarrow> Returned (True, finish_item key (c\<lparr>queue := q\<rparr>)))"


subsection \<open>Controller.Run, the informer and the worker goroutines\<close>

text \<open>
  The goroutines of a run interleave at the calls that synchronise them (queue
  operations under the queue's lock, channel reads, API calls). Each such step is an
  event; \<open>cfire\<close> gives the state after an event, or \<open>None\<close> when the event cannot
  happen in that state (the goroutine is elsewhere, or its call blocks).

  \<^item> \<open>Run_called n\<close>: \<open>Run(n, stopCh)\<close> starts the informer goroutine and goes on to
    \<open>WaitForCacheSync\<close>.
  \<^item> \<open>Informer_synced\<close>: the informer has finished its initial list.
  \<^item> \<open>Informer_event a\<close>: an add, update or delete handler fires for object \<open>a\<close> and
    calls \<open>queue.Add\<close> with its key.
  \<^item> \<open>Stop_closed\<close>: the stop channel is closed.
  \<^item> \<open>Sync_true\<close>, \<open>Sync_false\<close>: \<open>WaitForCacheSync\<close> returns; \<open>Run\<close> starts the workers,
    or logs the failure and returns (the deferred \<open>ShutDown\<close> runs).
  \<^item> \<open>Stop_received\<close>: \<open>Run\<close> receives from the stop channel and returns.
  \<^item> \<open>Until_loop i\<close>: worker \<open>i\<close> is at the head of \<open>wait.Until\<close>: it ends when the stop
    channel is closed and calls \<open>c.worker\<close> otherwise.
  \<^item> \<open>Get_returns i\<close>: the \<open>queue.Get\<close> of worker \<open>i\<close> returns a key or the closed signal.
  \<^item> \<open>Item_finished i\<close>: worker \<open>i\<close> runs the rest of \<open>processNextItem\<close> on its key.
  \<^item> \<open>Delay_over j\<close>: the delay of the \<open>j\<close>-th waiting key has elapsed.
  \<^item> \<open>Agent_applied a\<close>, \<open>Agent_removed ns n\<close>, \<open>Fault_scheduled f\<close>: the world outside
    changes the desired state, or the next API call's fate.
\<close>

datatype cevent =
    Run_called int
  | Informer_synced
  | Informer_event agent
  | Stop_closed
  | Sync_true
  | Sync_false
  | Stop_received
  | Until_loop nat
  | Get_returns nat
  | Item_finished nat
  | Delay_over nat
  | Agent_applied agent
  | Agent_removed string string
  | Fault_scheduled "api_status option"

text \<open>\<open>cache.MetaNamespaceKeyFunc\<close>: \<open>namespace/name\<close>, or the name alone in the empty
  namespace.\<close>

definition MetaNamespaceKeyFunc :: "agent \<Rightarrow> string" where
  "MetaNamespaceKeyFunc a =
     (if a_namespace a = [] then a_name a else a_namespace a @ ''/'' @ a_name a)"

fun cfire :: "cevent \<Rightarrow> controller \<Rightarrow> controller option" where
  "cfire (Run_called n) s =
     (if run_at s = NotStarted
      then Some (s\<lparr>world := log_line (Info ''Starting informer'') (world s),
                  informer_started := True, run_at := WaitingForSync,
                  run_workers := n\<rparr>)
      else None)"
| "cfire Informer_synced s =
     (if informer_started s then Some (s\<lparr>HasSynced := True\<rparr>) else None)"
| "cfire (Informer_event a) s =
     (if informer_started s
      then Some (s\<lparr>queue := Enqueue (MetaNamespaceKeyFunc a) (queue s)\<rparr>)
      else None)"
| "cfire Stop_closed s =
     (if stopCh_closed s then None else Some (s\<lparr>stopCh_closed := True\<rparr>))"
| "cfire Sync_true s =
     (if run_at s = WaitingForSync \<and> HasSynced s
      then Some (s\<lparr>workers := replicate (nat (run_workers s)) Until, run_at := Serving\<rparr>)
      else None)"
| "cfire Sync_false s =
     (if run_at s = WaitingForSync \<and> stopCh_closed s
      then Some (s\<lparr>world := log_line (Error ''Failed to sync cache'') (world s),
                  queue := ShutDown (queue s), run_at := Finished\<rparr>)
      else None)"
| "cfire Stop_received s =
     (if run_at s = Serving \<and> stopCh_closed s
      then Some (s\<lparr>world := log_line (Info ''Stopping controller'') (world s),
                  queue := ShutDown (queue s), run_at := Finished\<rparr>)
      else None)"
| "cfire (Until_loop i) s =
     (if i < length (workers s) \<and> workers s ! i = Until
      then Some (s\<lparr>workers := (workers s)[i := (if stopCh_closed s then Gone else Getting)]\<rparr>)
      else None)"
| "cfire (Get_returns i) s =
     (if i < length (workers s) \<and> workers s ! i = Getting
      then (case Dequeue (queue s) of
              Returned (Some key, q) \<Rightarrow>
                Some (s\<lparr>queue := q, workers := (workers s)[i := Reconciling key]\<rparr>)
            | Returned (None, q) \<Rightarrow>
                Some (s\<lparr>queue := q, workers := (workers s)[i := Until]\<rparr>)
            | _ \<Rightarrow> None)
      else None)"
| "cfire (Item_finished i) s =
     (if i < length (workers s)
      then (case workers s ! i of
              Reconciling key \<Rightarrow>
                Some ((finish_item key s)\<lparr>workers := (workers s)[i := Getting]\<rparr>)
            | _ \<Rightarrow> None)
      else None)"
| "cfire (Delay_over j) s =
     (case delay_elapsed j (queue s) of
        Some q \<Rightarrow> Some (s\<lparr>queue := q\<rparr>)
      | None \<Rightarrow> None)"
| "cfire (Agent_applied a) s =
     Some (s\<lparr>world := (world s)\<lparr>agents := (agents (world s))((a_namespace a, a_name a) \<mapsto> a)\<rparr>\<rparr>)"
| "cfire (Agent_removed ns n) s =
     Some (s\<lparr>world := (world s)\<lparr>agents := (agents (world s))((ns, n) := None)\<rparr>\<rparr>)"
| "cfire (Fault_scheduled f) s =
     Some (s\<lparr>world := (world s)\<lparr>faults := faults (world s) @ [f]\<rparr>\<rparr>)"

fun crun :: "cevent list \<Rightarrow> controller \<Rightarrow> controller option" where
  "crun [] s = Some s"
| "crun (e # es) s = (case cfire e s of None \<Rightarrow> None | Some s' \<Rightarrow> crun es s')"


section \<open>The orchestrator and its Kubernetes adapter\<close>

subsection \<open>KubernetesAdapter\<close>

text \<open>\<open>model.DeploymentTask\<close>, with the fields the adapter and the test use.\<close>

record task =
  TenantID :: string
  AgentID :: string
  ContainerImg :: string
  Action :: string

definition DeployAgent :: "ctx \<Rightarrow> string \<Rightarrow> task \<Rightarrow> cluster \<Rightarrow> go_error option \<times> cluster" where
  "DeployAgent done ns t c =
     (let d = \<lparr>d_name = AgentID t,
                d_labels = [(''tenant'', TenantID t), (''agent'', AgentID t)],
                d_replicas = Some 1,
                d_selector = Some [(''agent'', AgentID t)],
                d_template_labels = [(''agent'', AgentID t)],
                d_containers = [\<lparr>c_name = AgentID t, c_image = ContainerImg t, c_command = []\<rparr>]\<rparr>
      in case deployments_Create done ns d c of
           (Some err, c') \<Rightarrow> (Some (Wrapped ''deploy error'' err), c')
         | (None, c') \<Rightarrow> (None, c'))"

text \<open>\<open>UpdateAgent\<close> writes to \<open>Containers[0]\<close> of the deployment it fetched: with no
  container the index is out of range and the goroutine panics.\<close>

definition UpdateAgent ::
  "ctx \<Rightarrow> string \<Rightarrow> task \<Rightarrow> cluster \<Rightarrow> (go_error option \<times> cluster) outcome" where
  "UpdateAgent done ns t c =
     (case deployments_Get done ns (AgentID t) c of
        (Inl err, c1) \<Rightarrow> Returned (Some err, c1)
      | (Inr d, c1) \<Rightarrow>
          (case d_containers d of
             [] \<Rightarrow> Panicked ''index out of range [0] with length 0''
           | x # xs \<Rightarrow>
               Returned
                 (deployments_Update done ns
                    (d\<lparr>d_containers := x\<lparr>c_image := ContainerImg t\<rparr> # xs\<rparr>) c1)))"

definition DeleteAgent :: "ctx \<Rightarrow> string \<Rightarrow> task \<Rightarrow> cluster \<Rightarrow> go_error option \<times> cluster" where
  "DeleteAgent done ns t c = deployments_Delete done ns (AgentID t) c"

subsection \<open>Orchestrator\<close>

datatype oworker = Selecting | Handling task | Stopped

datatype shutdown_pc = NotCalled | Waiting | Closed

text \<open>The \<open>Orchestrator\<close> struct: the task channel (its buffer and whether it has been
  closed), the wait group's counter, the adapter (the cluster it acts on and its
  namespace) and the context (whether \<open>cancel\<close> has been called); with it the worker
  goroutines, the senders parked in \<open>SubmitTask\<close> on a full channel (in arrival order),
  the calls of \<open>Shutdown\<close> that are in \<open>wg.Wait()\<close>, how far shutting down has come (no
  call yet, a call waiting, a call has returned), and whether a panic has ended the
  process.\<close>

record orchestrator =
  taskQueue :: "task list"
  taskQueue_closed :: bool
  wg :: nat
  k8s :: cluster
  k8s_namespace :: string
  ctx_done :: bool
  oworkers :: "oworker list"
  blocked_sends :: "task list"
  shutdown_waiting :: nat
  shutdown_at :: shutdown_pc
  crashed :: "string option"

definition taskQueue_cap :: nat where
  "taskQueue_cap = 100"

definition NewOrchestrator :: "cluster \<Rightarrow> string \<Rightarrow> int \<Rightarrow> orchestrator" where
  "NewOrchestrator adapter ns count =
     \<lparr>taskQueue = [], taskQueue_closed = False, wg = nat count,
      k8s = adapter, k8s_namespace = ns, ctx_done = False,
      oworkers = replicate (nat count) Selecting,
      blocked_sends = [], shutdown_waiting = 0,
      shutdown_at = NotCalled, crashed = None\<rparr>"

definition handleTask :: "task \<Rightarrow> orchestrator \<Rightarrow> (go_error option \<times> cluster) outcome" where
  "handleTask t orc =
     (if Action t = ''CREATE'' then Returned (DeployAgent (ctx_done orc) (k8s_namespace orc) t (k8s orc))
      else if Action t = ''UPDATE'' then UpdateAgent (ctx_done orc) (k8s_namespace orc) t (k8s orc)
      else if Action t = ''DELETE'' then Returned (DeleteAgent (ctx_done orc) (k8s_namespace orc) t (k8s orc))
      else Returned (None, k8s orc))"

text \<open>\<open>SubmitTask\<close> sends on the buffered channel: the send panics on a closed channel,
  blocks while the buffer is full, and appends to the buffer otherwise.\<close>

definition SubmitTask :: "task \<Rightarrow> orchestrator \<Rightarrow> orchestrator outcome" where
  "SubmitTask t orc =
     (if taskQueue_closed orc then Panicked ''send on closed channel''
      else if length (taskQueue orc) < taskQueue_cap then Returned (orc\<lparr>taskQueue := taskQueue orc @ [t]\<rparr>)
      else Blocked)"

text \<open>The receive of a worker's \<open>select\<close>: the head of the buffer, and the task of the
  first parked sender, if there is one, moves into the room this makes (that sender's
  \<open>SubmitTask\<close> returns); on a closed and empty channel, the zero task at once; otherwise
  the receive has to wait.\<close>

definition zero_task :: task where
  "zero_task = \<lparr>TenantID = [], AgentID = [], ContainerImg = [], Action = []\<rparr>"

definition receive :: "orchestrator \<Rightarrow> (task \<times> orchestrator) outcome" where
  "receive orc =
     (case taskQueue orc of
        t # ts \<Rightarrow>
          (case blocked_sends orc of
             [] \<Rightarrow> Returned (t, orc\<lparr>taskQueue := ts\<rparr>)
           | b # bs \<Rightarrow> Returned (t, orc\<lparr>taskQueue := ts @ [b], blocked_sends := bs\<rparr>))
      | [] \<Rightarrow> if taskQueue_closed orc then Returned (zero_task, orc) else Blocked)"

text \<open>
  The events of the orchestrator's goroutines. A worker's \<open>select\<close> offers two cases,
  \<open>ctx.Done()\<close> and the receive; when both are ready Go chooses one of them at random,
  so both \<open>Worker_stops\<close> and \<open>Worker_receives\<close> can happen then.

  \<^item> \<open>Submit t\<close>: some goroutine calls \<open>SubmitTask(t)\<close>: the send goes through, or panics
    on a closed channel, or the goroutine parks until a receive makes room.
  \<^item> \<open>Worker_receives i\<close>: worker \<open>i\<close>, in its \<open>select\<close>, receives a task.
  \<^item> \<open>Worker_stops i\<close>: worker \<open>i\<close>, in its \<open>select\<close>, reads \<open>ctx.Done()\<close> and returns
    (the deferred \<open>wg.Done()\<close> runs).
  \<^item> \<open>Worker_handles i\<close>: worker \<open>i\<close> runs \<open>handleTask\<close> on its task and logs an error.
  \<^item> \<open>Shutdown_called\<close>: some goroutine calls \<open>Shutdown\<close>, which calls \<open>cancel\<close> (again, if
    it has been called before) and goes on to \<open>wg.Wait()\<close>.
  \<^item> \<open>Shutdown_returns\<close>: the \<open>wg.Wait()\<close> of a call of \<open>Shutdown\<close> returns and the call
    closes the channel: closing a channel that is already closed panics, and closing
    a channel with parked senders makes them panic; otherwise the call returns.

  A panic ends the process: nothing happens after it.
\<close>

datatype oevent =
    Submit task
  | Worker_receives nat
  | Worker_stops nat
  | Worker_handles nat
  | Shutdown_called
  | Shutdown_returns

definition ofire :: "oevent \<Rightarrow> orchestrator \<Rightarrow> orchestrator option" where
  "ofire e orc =
     (if crashed orc \<noteq> None then None
      else case e of
        Submit t \<Rightarrow>
          (case SubmitTask t orc of
             Returned orc' \<Rightarrow> Some orc'
           | Blocked \<Rightarrow> Some (orc\<lparr>blocked_sends := blocked_sends orc @ [t]\<rparr>)
           | Panicked m \<Rightarrow> Some (orc\<lparr>crashed := Some m\<rparr>))
      | Worker_receives i \<Rightarrow>
          (if i < length (oworkers orc) \<and> oworkers orc ! i = Selecting
           then (case receive orc of
                   Returned (t, orc') \<Rightarrow>
                     Some (orc'\<lparr>k8s := log_line (Info ''Worker processing task'') (k8s orc),
                            oworkers := (oworkers orc)[i := Handling t]\<rparr>)
                 | _ \<Rightarrow> None)
           else None)
      | Worker_stops i \<Rightarrow>
          (if i < length (oworkers orc) \<and> oworkers orc ! i = Selecting \<and> ctx_done orc
           then Some (orc\<lparr>k8s := log_line (Info ''Worker stopping'') (k8s orc),
                       oworkers := (oworkers orc)[i := Stopped], wg := wg orc - 1\<rparr>)
           else None)
      | Worker_handles i \<Rightarrow>
          (if i < length (oworkers orc)
           then (case oworkers orc ! i of
                   Handling t \<Rightarrow>
                     (case handleTask t orc of
                        Returned (None, c) \<Rightarrow>
                          Some (orc\<lparr>k8s := c, oworkers := (oworkers orc)[i := Selecting]\<rparr>)
                      | Returned (Some err, c) \<Rightarrow>
                          Some (orc\<lparr>k8s := log_line (ErrorWith ''Worker error'' err) c,
                                 oworkers := (oworkers orc)[i := Selecting]\<rparr>)
                      | Blocked \<Rightarrow> None
                      | Panicked m \<Rightarrow> Some (orc\<lparr>crashed := Some m\<rparr>))
                 | _ \<Rightarrow> None)
           else None)
      | Shutdown_called \<Rightarrow>
          Some (orc\<lparr>ctx_done := True, shutdown_waiting := Suc (shutdown_waiting orc),
                 shutdown_at := (if shutdown_at orc = NotCalled then Waiting
                                 else shutdown_at orc)\<rparr>)
      | Shutdown_returns \<Rightarrow>
          (if 0 < shutdown_waiting orc \<and> wg orc = 0
           then (if taskQueue_closed orc
                 then Some (orc\<lparr>crashed := Some ''close of closed channel''\<rparr>)
                 else Some (orc\<lparr>taskQueue_closed := True,
                             shutdown_waiting := shutdown_waiting orc - 1,
                             shutdown_at := Closed,
                             crashed := (if blocked_sends orc = [] then None
                                         else Some ''send on closed channel'')\<rparr>))
           else None))"

fun orun :: "oevent list \<Rightarrow> orchestrator \<Rightarrow> orchestrator option" where
  "orun [] orc = Some orc"
| "orun (e # es) orc = (case ofire e orc of None \<Rightarrow> None | Some orc' \<Rightarrow> orun es orc')"

text \<open>The resource key of a task, the unit the specification serialises on: tenant and
  agent.\<close>

definition task_key :: "task \<Rightarrow> string \<times> string" where
  "task_key t = (TenantID t, AgentID t)"


section \<open>Notions the properties are stated with\<close>

text \<open>The keys the worker goroutines are reconciling.\<close>

fun held :: "worker \<Rightarrow> string list" where
  "held (Reconciling key) = [key]"
| "held _ = []"

definition in_progress :: "worker list \<Rightarrow> string list" where
  "in_progress ws = concat (map held ws)"

text \<open>The events in which a worker goroutine of the controller runs.\<close>

fun worker_event :: "cevent \<Rightarrow> bool" where
  "worker_event (Until_loop i) = True"
| "worker_event (Get_returns i) = True"
| "worker_event (Item_finished i) = True"
| "worker_event _ = False"

text \<open>The queue's bookkeeping is consistent: no key is pending twice, no key is
  pending while it is in flight, and only keys in flight are marked dirty.\<close>

definition queue_ok :: "workqueue \<Rightarrow> bool" where
  "queue_ok q =
     (distinct (pending q) \<and> set (pending q) \<inter> inflight q = {} \<and> dirty q \<subseteq> inflight q)"

text \<open>The tasks the orchestrator's workers are handling, and the workers that have
  not returned.\<close>

fun handled :: "oworker \<Rightarrow> task list" where
  "handled (Handling t) = [t]"
| "handled _ = []"

definition being_handled :: "oworker list \<Rightarrow> task list" where
  "being_handled ws = concat (map handled ws)"

definition running :: "oworker list \<Rightarrow> nat" where
  "running ws = length (filter (\<lambda>w. w \<noteq> Stopped) ws)"

text \<open>What holds of the controller in every state of a run: the queue is consistent,
  the keys being reconciled are distinct and in flight; workers exist only once
  \<open>Run\<close> is past the cache sync, at most as many as it was asked for.\<close>

definition ctrl_ok :: "controller \<Rightarrow> bool" where
  "ctrl_ok s =
     (queue_ok (queue s) \<and> distinct (in_progress (workers s)) \<and>
      set (in_progress (workers s)) \<subseteq> inflight (queue s))"

definition pool_ok :: "controller \<Rightarrow> bool" where
  "pool_ok s =
     ((run_at s = NotStarted \<or> run_at s = WaitingForSync \<longrightarrow> workers s = []) \<and>
      length (workers s) \<le> nat (run_workers s))"

text \<open>What holds of a run's events so far and its state: workers exist only after
  \<open>Sync_true\<close>, the informer has synced only after \<open>Informer_synced\<close>, and
  \<open>WaitForCacheSync\<close> has returned once at most.\<close>

definition sync_trace_ok :: "cevent list \<Rightarrow> controller \<Rightarrow> bool" where
  "sync_trace_ok es s =
     ((workers s \<noteq> [] \<longrightarrow> Sync_true \<in> set es) \<and>
      (HasSynced s \<longrightarrow> Informer_synced \<in> set es) \<and>
      (Sync_true \<in> set es \<longrightarrow> Informer_synced \<in> set es \<and> Sync_false \<notin> set es) \<and>
      (run_at s = NotStarted \<or> run_at s = WaitingForSync \<longrightarrow>
         Sync_true \<notin> set es \<and> Sync_false \<notin> set es))"

text \<open>What holds of the orchestrator in every state: the wait group counts the workers
  that have not returned, \<open>Shutdown\<close> has returned only with the counter at zero, the
  channel is closed only by \<open>Shutdown\<close>, and \<open>Shutdown\<close> cancels the context before it
  waits.\<close>

definition orch_ok :: "orchestrator \<Rightarrow> bool" where
  "orch_ok s =
     (wg s = running (oworkers s) \<and>
      (shutdown_at s = Closed \<longrightarrow> wg s = 0) \<and>
      (taskQueue_closed s \<longrightarrow> shutdown_at s = Closed) \<and>
      (shutdown_at s \<noteq> NotCalled \<longrightarrow> ctx_done s) \<and>
      (0 < shutdown_waiting s \<longrightarrow> shutdown_at s \<noteq> NotCalled))"


section \<open>Example states\<close>

definition empty_cluster :: cluster where
  "empty_cluster =
     \<lparr>agents = Map.empty, pods = Map.empty, deployments = Map.empty, faults = [], klog = []\<rparr>"

definition agent_a1 :: agent where
  "agent_a1 =
     \<lparr>a_name = ''a1'', a_namespace = ''default'',
      a_fields = [(''image'', ''registry/agent:v2'')]\<rparr>"

definition pod_a1_v1 :: pod where
  "pod_a1_v1 =
     \<lparr>pod_name = ''a1-pod'', pod_namespace = ''default'',
      pod_labels = [(''app'', ''ai-agent'')],
      pod_containers =
        [\<lparr>c_name = ''agent-container'', c_image = ''registry/agent:v1'', c_command = []\<rparr>]\<rparr>"

definition cluster_with_pod :: cluster where
  "cluster_with_pod = empty_cluster\<lparr>pods := [(''default'', ''a1-pod'') \<mapsto> pod_a1_v1]\<rparr>"

definition deployment_a1 :: deployment where
  "deployment_a1 =
     \<lparr>d_name = ''a1'',
      d_labels = [(''tenant'', ''t1''), (''agent'', ''a1'')],
      d_replicas = Some 1,
      d_selector = Some [(''agent'', ''a1'')],
      d_template_labels = [(''agent'', ''a1'')],
      d_containers =
        [\<lparr>c_name = ''a1'', c_image = ''registry/agent:v1'', c_command = []\<rparr>,
         \<lparr>c_name = ''sidecar'', c_image = ''registry/proxy:v7'', c_command = [''run'']\<rparr>]\<rparr>"

definition cluster_with_deployment :: cluster where
  "cluster_with_deployment =
     empty_cluster\<lparr>deployments := [(''default'', ''a1'') \<mapsto> deployment_a1]\<rparr>"

definition task_create_a1 :: task where
  "task_create_a1 =
     \<lparr>TenantID = ''t1'', AgentID = ''a1'', ContainerImg = ''registry/agent:v1'',
      Action = ''CREATE''\<rparr>"

definition task_update_a1 :: task where
  "task_update_a1 =
     \<lparr>TenantID = ''t1'', AgentID = ''a1'', ContainerImg = ''registry/agent:v2'',
      Action = ''UPDATE''\<rparr>"

definition controller_a1 :: controller where
  "controller_a1 =
     \<lparr>world = empty_cluster\<lparr>faults := [Some Unavailable]\<rparr>,
      queue = (new_queue 5 1000000)\<lparr>pending := [''default/a1'']\<rparr>,
      adapter_ns = ''default'', maxRetries = 5, informer_started = True, HasSynced = True,
      stopCh_closed = False, run_at = Serving, run_workers = 1, workers = [Getting]\<rparr>"

definition agent_a2 :: agent where
  "agent_a2 =
     \<lparr>a_name = ''a2'', a_namespace = ''default'',
      a_fields = [(''image'', ''registry/agent:v1'')]\<rparr>"

definition controller_new :: controller where
  "controller_new =
     \<lparr>world = empty_cluster, queue = new_queue 5 1000000, adapter_ns = ''default'',
      maxRetries = 5, informer_started = False, HasSynced = False,
      stopCh_closed = False, run_at = NotStarted, run_workers = 0, workers = []\<rparr>"

text \<open>Two agents are notified, the cache syncs, two workers start and each takes a key.\<close>

definition run_two_keys :: "cevent list" where
  "run_two_keys =
     [Run_called 2, Informer_event agent_a1, Informer_event agent_a2, Informer_synced,
      Sync_true, Until_loop 0, Until_loop 1, Get_returns 0, Get_returns 1]"

text \<open>One worker is reconciling \<open>default/a1\<close> when two more notifications for it arrive.\<close>

definition run_notified_in_flight :: "cevent list" where
  "run_notified_in_flight =
     [Run_called 1, Informer_event agent_a1, Informer_synced, Sync_true, Until_loop 0,
      Get_returns 0, Informer_event agent_a1, Informer_event agent_a1]"

text \<open>The stop channel is closed before the cache has synced.\<close>

definition run_sync_fails :: "cevent list" where
  "run_sync_fails = [Run_called 3, Informer_event agent_a1, Stop_closed, Sync_false]"

text \<open>An orchestrator with one worker handles a task, is shut down and drains.\<close>

definition orchestrator_drains :: "oevent list" where
  "orchestrator_drains =
     [Submit task_create_a1, Worker_receives 0, Shutdown_called, Worker_handles 0,
      Worker_stops 0, Shutdown_returns]"

text \<open>An orchestrator with two workers is shut down while idle.\<close>

definition orchestrator_shut_down :: "oevent list" where
  "orchestrator_shut_down = [Shutdown_called, Worker_stops 0, Worker_stops 1, Shutdown_returns]"

text \<open>Agent \<open>a1\<close> has failed five times in a row; its next reconcile fails too.\<close>

definition controller_at_ceiling :: controller where
  "controller_at_ceiling =
     controller_a1\<lparr>queue := (queue controller_a1)\<lparr>retry_count := (\<lambda>_. 0)(''default/a1'' := 5)\<rparr>\<rparr>"

text \<open>A run with one worker in which every reconcile of \<open>default/a1\<close> fails: the start,
  one failing reconcile, and a retry after the backoff delay.\<close>

definition start_one_worker :: "cevent list" where
  "start_one_worker =
     [Run_called 1, Informer_event agent_a1, Informer_synced, Sync_true, Until_loop 0]"

definition fail_once :: "cevent list" where
  "fail_once = [Fault_scheduled (Some Unavailable), Get_returns 0, Item_finished 0]"

definition retry_fails :: "cevent list" where
  "retry_fails = Delay_over 0 # fail_once"

definition five_failures :: "cevent list" where
  "five_failures =
     start_one_worker @ fail_once @ retry_fails @ retry_fails @ retry_fails @ retry_fails"


section \<open>What the client calls leave alone\<close>

lemmas client_defs = pods_Get_def pods_Create_def agents_Get_def api_call_def next_fault_def
  log_line_def TODO_def IsNotFound_def

lemma api_call_frame:
  "api_call d c = (f, c') \<Longrightarrow>
     pods c' = pods c \<and> agents c' = agents c \<and> deployments c' = deployments c \<and>
     klog c' = klog c"
  by (auto simp: api_call_def next_fault_def split: if_splits list.splits)

lemma log_line_frame [simp]:
  "pods (log_line l c) = pods c" "agents (log_line l c) = agents c"
  "deployments (log_line l c) = deployments c" "faults (log_line l c) = faults c"
  by (simp_all add: log_line_def)

lemma pods_Get_frame:
  "pods_Get d ns n c = (r, c') \<Longrightarrow>
     pods c' = pods c \<and> agents c' = agents c \<and> deployments c' = deployments c"
  unfolding pods_Get_def
  by (cases "api_call d c") (auto dest!: api_call_frame split: option.splits)

lemma pods_Get_absent:
  "pods c (ns, n) = None \<Longrightarrow> pods_Get d ns n c = (r, c') \<Longrightarrow> \<exists>e. r = Inl e"
  unfolding pods_Get_def
  by (cases "api_call d c") (auto dest!: api_call_frame split: option.splits)

lemma pods_Create_frame:
  "pods_Create d ns p c = (r, c') \<Longrightarrow>
     agents c' = agents c \<and> deployments c' = deployments c \<and>
     (r \<noteq> None \<longrightarrow> pods c' = pods c) \<and>
     (r = None \<longrightarrow>
        pods c (ns, pod_name p) = None \<and> pods c' = (pods c)((ns, pod_name p) \<mapsto> p))"
  unfolding pods_Create_def
  by (cases "api_call d c") (auto dest!: api_call_frame split: option.splits)

lemma agents_Get_frame:
  "agents_Get d ns n c = (r, c') \<Longrightarrow>
     pods c' = pods c \<and> agents c' = agents c \<and> deployments c' = deployments c"
  unfolding agents_Get_def
  by (cases "api_call d c") (auto dest!: api_call_frame split: option.splits)

lemma pod_name_agent_pod [simp]: "pod_name (agent_pod ns n) = n"
  by (simp add: agent_pod_def)


section \<open>Reconcile: what it converges to\<close>

lemma Reconcile_effect:
  assumes "Reconcile ns a c = (r, c')"
  shows "agents c' = agents c \<and> deployments c' = deployments c \<and>
         (pods c' = pods c \<or>
          (r = None \<and> pods c (ns, a_name a @ ''-pod'') = None \<and>
           pods c' =
             (pods c)((ns, a_name a @ ''-pod'') \<mapsto> agent_pod ns (a_name a @ ''-pod''))))"
proof (cases "pods_Get TODO ns (a_name a @ ''-pod'') c")
  case (Pair g c1)
  note fr = pods_Get_frame [OF Pair]
  show ?thesis
  proof (cases g)
    case (Inr p)
    with assms Pair fr show ?thesis by (auto simp add: Reconcile_def Let_def)
  next
    case (Inl err)
    show ?thesis
    proof (cases "IsNotFound err")
      case False
      with assms Pair Inl fr show ?thesis by (auto simp add: Reconcile_def Let_def)
    next
      case True
      obtain r2 c2
        where cr: "pods_Create TODO ns (agent_pod ns (a_name a @ ''-pod'')) c1 = (r2, c2)"
        by (cases "pods_Create TODO ns (agent_pod ns (a_name a @ ''-pod'')) c1")
      note fc = pods_Create_frame [OF cr]
      show ?thesis
      proof (cases r2)
        case None
        with assms Pair Inl True cr have "r = None"
          and "c' = log_line (Info (''Deployed Pod '' @ (a_name a @ ''-pod'') @
                     '' for agent '' @ a_name a)) c2"
          by (auto simp add: Reconcile_def Let_def)
        with fc fr None show ?thesis by simp
      next
        case (Some e2)
        with assms Pair Inl True cr have "c' = c2" by (auto simp add: Reconcile_def Let_def)
        with fc fr Some show ?thesis by simp
      qed
    qed
  qed
qed

lemma Reconcile_present:
  assumes "Reconcile ns a c = (r, c')" and "pods c (ns, a_name a @ ''-pod'') = Some p"
  shows "pods c' = pods c"
  using Reconcile_effect [OF assms(1)] assms(2) by auto

lemma Reconcile_absent_ok:
  assumes "Reconcile ns a c = (None, c')" and "pods c (ns, a_name a @ ''-pod'') = None"
  shows "pods c' =
           (pods c)((ns, a_name a @ ''-pod'') \<mapsto> agent_pod ns (a_name a @ ''-pod''))"
proof (cases "pods_Get TODO ns (a_name a @ ''-pod'') c")
  case (Pair g c1)
  note fr = pods_Get_frame [OF Pair]
  from pods_Get_absent [OF assms(2) Pair] obtain err where g: "g = Inl err" by blast
  obtain r2 c2
    where cr: "pods_Create TODO ns (agent_pod ns (a_name a @ ''-pod'')) c1 = (r2, c2)"
    by (cases "pods_Create TODO ns (agent_pod ns (a_name a @ ''-pod'')) c1")
  note fc = pods_Create_frame [OF cr]
  from assms(1) Pair g cr have r2: "r2 = None"
    and c': "c' = log_line (Info (''Deployed Pod '' @ (a_name a @ ''-pod'') @
                     '' for agent '' @ a_name a)) c2"
    by (auto simp add: Reconcile_def Let_def split: if_splits option.splits)
  from fc r2 fr c' show ?thesis by simp
qed

text \<open>
  Claim C1, as amended. A successful \<open>Reconcile\<close> of an agent leaves the pod
  \<open><agent name>-pod\<close> present in the adapter's namespace: when the pod was absent it is
  created from the fixed template (image \<open>busybox\<close>); when it was present the pods are
  left exactly as they were, whatever image the pod runs and whatever the agent
  asks for. Agents and deployments are never touched, and reconciling again changes
  no pod.
\<close>

theorem Reconcile_leaves_pod_present:
  assumes "Reconcile ns a c = (None, c')"
  shows "agents c' = agents c \<and> deployments c' = deployments c \<and>
         (case pods c (ns, a_name a @ ''-pod'') of
            Some p \<Rightarrow> pods c' = pods c
          | None \<Rightarrow>
              pods c' =
                (pods c)((ns, a_name a @ ''-pod'') \<mapsto> agent_pod ns (a_name a @ ''-pod''))) \<and>
         pods c' (ns, a_name a @ ''-pod'') \<noteq> None \<and>
         pods (snd (Reconcile ns a c')) = pods c'"
proof -
  let ?k = "(ns, a_name a @ ''-pod'')"
  note eff = Reconcile_effect [OF assms]
  have shape: "(case pods c ?k of
            Some p \<Rightarrow> pods c' = pods c
          | None \<Rightarrow> pods c' = (pods c)(?k \<mapsto> agent_pod ns (a_name a @ ''-pod'')))"
  proof (cases "pods c ?k")
    case None
    with Reconcile_absent_ok [OF assms] show ?thesis by simp
  next
    case (Some p)
    with Reconcile_present [OF assms] show ?thesis by simp
  qed
  then have present: "pods c' ?k \<noteq> None"
    by (cases "pods c ?k") auto
  then obtain p' where p': "pods c' ?k = Some p'" by blast
  obtain r2 c2 where again: "Reconcile ns a c' = (r2, c2)"
    by (cases "Reconcile ns a c'")
  from Reconcile_present [OF again p'] again
  have "pods (snd (Reconcile ns a c')) = pods c'"
    by simp
  with eff shape present show ?thesis by blast
qed

theorem Reconcile_leaves_pod_present_witness:
  "Reconcile ''default'' agent_a1 empty_cluster
     = (None, snd (Reconcile ''default'' agent_a1 empty_cluster)) \<and>
   pods (snd (Reconcile ''default'' agent_a1 empty_cluster))
     (''default'', a_name agent_a1 @ ''-pod'') \<noteq> None"
proof -
  have "fst (Reconcile ''default'' agent_a1 empty_cluster) = None"
    by (simp add: Reconcile_def client_defs empty_cluster_def agent_a1_def Let_def)
  then have h: "Reconcile ''default'' agent_a1 empty_cluster
      = (None, snd (Reconcile ''default'' agent_a1 empty_cluster))"
    by (metis prod.collapse)
  from h Reconcile_leaves_pod_present [OF h] show ?thesis by blast
qed

text \<open>
  Claim C1 as stated fails: the pod of agent \<open>a1\<close> runs image \<open>registry/agent:v1\<close>, the
  agent asks for \<open>registry/agent:v2\<close>, and \<open>Reconcile\<close> returns success with the pod
  and the deployments as they were: nothing is updated.
\<close>

theorem Reconcile_never_updates_image:
  "fst (Reconcile ''default'' agent_a1 cluster_with_pod) = None \<and>
   pods (snd (Reconcile ''default'' agent_a1 cluster_with_pod)) (''default'', ''a1-pod'')
     = Some pod_a1_v1 \<and>
   deployments (snd (Reconcile ''default'' agent_a1 cluster_with_pod)) = Map.empty \<and>
   map c_image (pod_containers pod_a1_v1) = [''registry/agent:v1''] \<and>
   map_of (a_fields agent_a1) ''image'' = Some ''registry/agent:v2''"
  by (simp add: Reconcile_def client_defs cluster_with_pod_def empty_cluster_def agent_a1_def
      pod_a1_v1_def Let_def)


section \<open>Evaluating concrete runs\<close>

lemma replicate_two: "replicate 2 x = [x, x]"
  by (simp add: numeral_2_eq_2)

lemma replicate_three: "replicate 3 x = [x, x, x]"
  by (simp add: numeral_3_eq_3)

lemmas run_defs = controller_new_def new_queue_def empty_cluster_def agent_a1_def agent_a2_def
  MetaNamespaceKeyFunc_def Enqueue_def Dequeue_def ShutDown_def log_line_def
  replicate_two replicate_three

lemmas orch_defs = ofire_def NewOrchestrator_def SubmitTask_def receive_def taskQueue_cap_def
  log_line_def task_create_a1_def task_update_a1_def empty_cluster_def replicate_two


section \<open>Controller.reconcile and a deleted agent\<close>

lemma reconcile_not_found:
  assumes "SplitMetaNamespaceKey key = Inr (ns, n)"
    and "agents_Get TODO ns n c = (Inl err, c1)" and "IsNotFound err"
  shows "reconcile ans key c = (None, log_line (Info (''Agent '' @ key @ '' deleted'')) c1)"
  using assms by (simp add: reconcile_def)

text \<open>
  Claim C4, as amended. For every key whose desired state is absent (the read of the
  agent reports not found), \<open>Controller.reconcile\<close> returns success and leaves the
  cluster's pods, deployments and agents exactly as they were: it logs the deletion
  and deletes nothing.
\<close>

theorem reconcile_deleted_agent_is_noop:
  assumes "SplitMetaNamespaceKey key = Inr (ns, n)"
    and "fst (agents_Get TODO ns n c) = Inl (ApiError NotFound)"
  shows "fst (reconcile ans key c) = None \<and>
         pods (snd (reconcile ans key c)) = pods c \<and>
         deployments (snd (reconcile ans key c)) = deployments c \<and>
         agents (snd (reconcile ans key c)) = agents c"
proof -
  obtain c1 where g: "agents_Get TODO ns n c = (Inl (ApiError NotFound), c1)"
    using assms(2) by (cases "agents_Get TODO ns n c") simp
  have nf: "IsNotFound (ApiError NotFound)" by (simp add: IsNotFound_def)
  from reconcile_not_found [OF assms(1) g nf, of ans] agents_Get_frame [OF g]
  show ?thesis by simp
qed

theorem reconcile_deleted_agent_is_noop_witness:
  "SplitMetaNamespaceKey ''default/a1'' = Inr (''default'', ''a1'') \<and>
   fst (agents_Get TODO ''default'' ''a1'' cluster_with_pod) = Inl (ApiError NotFound) \<and>
   fst (reconcile ''default'' ''default/a1'' cluster_with_pod) = None \<and>
   pods (snd (reconcile ''default'' ''default/a1'' cluster_with_pod)) = pods cluster_with_pod"
proof -
  have s: "SplitMetaNamespaceKey ''default/a1'' = Inr (''default'', ''a1'')"
    by (simp add: SplitMetaNamespaceKey_def)
  have g: "fst (agents_Get TODO ''default'' ''a1'' cluster_with_pod) = Inl (ApiError NotFound)"
    by (simp add: client_defs cluster_with_pod_def empty_cluster_def)
  from s g reconcile_deleted_agent_is_noop [OF s g, of "''default''"] show ?thesis by blast
qed

text \<open>
  Claim C4 as stated fails: agent \<open>a1\<close> is gone, its pod \<open>a1-pod\<close> exists, and
  \<open>reconcile\<close> returns success with the pod still there.
\<close>

theorem reconcile_keeps_pod_of_deleted_agent:
  "agents cluster_with_pod (''default'', ''a1'') = None \<and>
   fst (reconcile ''default'' ''default/a1'' cluster_with_pod) = None \<and>
   pods (snd (reconcile ''default'' ''default/a1'' cluster_with_pod)) (''default'', ''a1-pod'')
     = Some pod_a1_v1"
  by (simp add: reconcile_def SplitMetaNamespaceKey_def client_defs cluster_with_pod_def
      empty_cluster_def)


section \<open>UpdateAgent: the update it submits\<close>

lemma deployments_Get_frame:
  "deployments_Get d ns n c = (r, c') \<Longrightarrow>
     pods c' = pods c \<and> agents c' = agents c \<and> deployments c' = deployments c"
  unfolding deployments_Get_def
  by (cases "api_call d c") (auto dest!: api_call_frame split: option.splits)

lemma deployments_Get_Inr:
  "deployments_Get d ns n c = (Inr x, c') \<Longrightarrow> deployments c (ns, n) = Some x"
  unfolding deployments_Get_def
  by (cases "api_call d c") (auto dest!: api_call_frame split: option.splits)

lemma deployments_Update_frame:
  "deployments_Update d ns x c = (r, c') \<Longrightarrow>
     pods c' = pods c \<and> agents c' = agents c \<and>
     (r \<noteq> None \<longrightarrow> deployments c' = deployments c) \<and>
     (r = None \<longrightarrow> deployments c' = (deployments c)((ns, d_name x) \<mapsto> x))"
  unfolding deployments_Update_def
  by (cases "api_call d c") (auto dest!: api_call_frame split: option.splits)

text \<open>
  Claim C10. \<open>UpdateAgent\<close> fetches the deployment named by the task; when the fetched
  deployment has at least one container, the object it submits to \<open>Update\<close> is the
  fetched deployment with the image of its first container set to the task's image
  and nothing else changed. When the update goes through, only that deployment's
  entry changes in the cluster; when it fails, nothing changes.
\<close>

theorem UpdateAgent_sets_first_image_only:
  assumes "deployments_Get done ns (AgentID t) c = (Inr d, c1)"
    and "d_containers d = x # xs"
  shows "UpdateAgent done ns t c =
           Returned (deployments_Update done ns
                       (d\<lparr>d_containers := x\<lparr>c_image := ContainerImg t\<rparr> # xs\<rparr>) c1) \<and>
         deployments c (ns, AgentID t) = Some d \<and>
         (\<forall>c'. UpdateAgent done ns t c = Returned (None, c') \<longrightarrow>
            deployments c' =
              (deployments c)((ns, d_name d) \<mapsto>
                 d\<lparr>d_containers := x\<lparr>c_image := ContainerImg t\<rparr> # xs\<rparr>) \<and>
            pods c' = pods c \<and> agents c' = agents c) \<and>
         (\<forall>e c'. UpdateAgent done ns t c = Returned (Some e, c') \<longrightarrow>
            deployments c' = deployments c \<and> pods c' = pods c \<and> agents c' = agents c)"
proof -
  let ?d' = "d\<lparr>d_containers := x\<lparr>c_image := ContainerImg t\<rparr> # xs\<rparr>"
  have u: "UpdateAgent done ns t c = Returned (deployments_Update done ns ?d' c1)"
    using assms by (simp add: UpdateAgent_def)
  note fg = deployments_Get_frame [OF assms(1)]
  have n: "d_name ?d' = d_name d" by simp
  have ok: "deployments c' = (deployments c)((ns, d_name d) \<mapsto> ?d') \<and> pods c' = pods c \<and> agents c' = agents c"
    if "UpdateAgent done ns t c = Returned (None, c')" for c'
  proof -
    from that u have "deployments_Update done ns ?d' c1 = (None, c')" by simp
    from deployments_Update_frame [OF this] fg n show ?thesis by simp
  qed
  have bad: "deployments c' = deployments c \<and> pods c' = pods c \<and> agents c' = agents c"
    if "UpdateAgent done ns t c = Returned (Some e, c')" for e c'
  proof -
    from that u have "deployments_Update done ns ?d' c1 = (Some e, c')" by simp
    from deployments_Update_frame [OF this] fg show ?thesis by simp
  qed
  from u deployments_Get_Inr [OF assms(1)] ok bad show ?thesis by blast
qed

theorem UpdateAgent_sets_first_image_only_witness:
  "deployments_Get False ''default'' (AgentID task_update_a1) cluster_with_deployment
     = (Inr deployment_a1, cluster_with_deployment) \<and>
   d_containers deployment_a1 = hd (d_containers deployment_a1) # tl (d_containers deployment_a1) \<and>
   UpdateAgent False ''default'' task_update_a1 cluster_with_deployment =
     Returned (deployments_Update False ''default''
        (deployment_a1\<lparr>d_containers :=
           (hd (d_containers deployment_a1))\<lparr>c_image := ContainerImg task_update_a1\<rparr>
             # tl (d_containers deployment_a1)\<rparr>) cluster_with_deployment)"
proof -
  have g: "deployments_Get False ''default'' (AgentID task_update_a1) cluster_with_deployment
     = (Inr deployment_a1, cluster_with_deployment)"
    by (simp add: deployments_Get_def api_call_def next_fault_def cluster_with_deployment_def
        empty_cluster_def task_update_a1_def)
  have cs: "d_containers deployment_a1
      = hd (d_containers deployment_a1) # tl (d_containers deployment_a1)"
    by (simp add: deployment_a1_def)
  from g cs UpdateAgent_sets_first_image_only [OF g cs] show ?thesis by blast
qed

text \<open>Without a container the index is out of range: the precondition is needed.\<close>

lemma UpdateAgent_no_container_panics:
  assumes "deployments_Get done ns (AgentID t) c = (Inr d, c1)" and "d_containers d = []"
  shows "UpdateAgent done ns t c = Panicked ''index out of range [0] with length 0''"
  using assms by (simp add: UpdateAgent_def)


section \<open>The work queue: what each operation changes\<close>

lemma Enqueue_fields [simp]:
  "retry_count (Enqueue k q) = retry_count q" "delayed (Enqueue k q) = delayed q"
  "base_delay (Enqueue k q) = base_delay q" "max_delay (Enqueue k q) = max_delay q"
  "closed (Enqueue k q) = closed q" "inflight (Enqueue k q) = inflight q"
  by (simp_all add: Enqueue_def)

lemma Done_fields [simp]:
  "retry_count (Done k q) = retry_count q" "delayed (Done k q) = delayed q"
  "base_delay (Done k q) = base_delay q" "max_delay (Done k q) = max_delay q"
  "closed (Done k q) = closed q" "inflight (Done k q) = inflight q - {k}"
  by (simp_all add: Done_def)

lemma Forget_fields [simp]:
  "retry_count (Forget k q) = (retry_count q)(k := 0)" "delayed (Forget k q) = delayed q"
  "base_delay (Forget k q) = base_delay q" "max_delay (Forget k q) = max_delay q"
  "closed (Forget k q) = closed q" "inflight (Forget k q) = inflight q"
  "pending (Forget k q) = pending q" "dirty (Forget k q) = dirty q"
  by (simp_all add: Forget_def)

lemma AddAfter_fields [simp]:
  "retry_count (AddAfter k d q) = retry_count q"
  "base_delay (AddAfter k d q) = base_delay q" "max_delay (AddAfter k d q) = max_delay q"
  "closed (AddAfter k d q) = closed q" "inflight (AddAfter k d q) = inflight q"
  by (simp_all add: AddAfter_def)

lemma AddRateLimited_fields [simp]:
  "retry_count (AddRateLimited k q) = (retry_count q)(k := Suc (retry_count q k))"
  "base_delay (AddRateLimited k q) = base_delay q" "max_delay (AddRateLimited k q) = max_delay q"
  "closed (AddRateLimited k q) = closed q" "inflight (AddRateLimited k q) = inflight q"
  by (simp_all add: AddRateLimited_def)

lemma AddRateLimited_delayed:
  "\<not> closed q \<Longrightarrow> 0 < current_delay k q \<Longrightarrow>
     delayed (AddRateLimited k q) = delayed q @ [(k, current_delay k q)]"
  by (simp add: AddRateLimited_def AddAfter_def current_delay_def)

lemma Dequeue_Some:
  "Dequeue q = Returned (Some k, q') \<Longrightarrow>
     pending q = k # pending q' \<and> inflight q' = insert k (inflight q) \<and>
     retry_count q' = retry_count q \<and> delayed q' = delayed q \<and> dirty q' = dirty q \<and>
     closed q' = closed q \<and> base_delay q' = base_delay q \<and> max_delay q' = max_delay q"
  by (auto simp: Dequeue_def split: list.splits if_splits)

lemma Dequeue_None:
  "Dequeue q = Returned (None, q') \<Longrightarrow> q' = q \<and> pending q = [] \<and> closed q"
  by (auto simp: Dequeue_def split: list.splits if_splits)

lemma backoff_mono: "n \<le> m \<Longrightarrow> backoff base cap n \<le> backoff base cap m"
  unfolding backoff_def by (intro min.mono mult_le_mono2 power_increasing) simp_all

lemma current_delay_cong:
  "base_delay q' = base_delay q \<Longrightarrow> max_delay q' = max_delay q \<Longrightarrow>
   retry_count q' k = retry_count q k \<Longrightarrow> current_delay k q' = current_delay k q"
  by (simp add: current_delay_def)


section \<open>processNextItem: retries and the ceiling\<close>

lemma finish_item_ok:
  assumes "reconcile (adapter_ns c) key (world c) = (None, w)"
  shows "finish_item key c = c\<lparr>world := w, queue := Done key (Forget key (queue c))\<rparr>"
  using assms by (simp add: finish_item_def)

lemma finish_item_retry:
  assumes "reconcile (adapter_ns c) key (world c) = (Some err, w)"
    and "int (retry_count (queue c) key) < maxRetries c"
  shows "finish_item key c =
           c\<lparr>world := log_line (ErrorWith (''Error reconciling '' @ key) err) w,
             queue := Done key (AddRateLimited key (queue c))\<rparr>"
  using assms by (simp add: finish_item_def NumRequeues_def)

lemma finish_item_drop:
  assumes "reconcile (adapter_ns c) key (world c) = (Some err, w)"
    and "\<not> int (retry_count (queue c) key) < maxRetries c"
  shows "finish_item key c =
           c\<lparr>world := log_line (Handled err) w, queue := Done key (Forget key (queue c))\<rparr>"
  using assms by (simp add: finish_item_def NumRequeues_def)

lemma processNextItem_item:
  assumes "Dequeue (queue c) = Returned (Some key, q)"
  shows "processNextItem c = Returned (True, finish_item key (c\<lparr>queue := q\<rparr>))"
  using assms by (simp add: processNextItem_def)

text \<open>
  Claim C5. When the queue hands \<open>processNextItem\<close> a key, the call returns \<open>true\<close> and
  the key is no longer in flight (\<open>Done\<close>). If reconcile succeeded, the queue is the
  result of \<open>Forget\<close> and \<open>Done\<close>: the retry count is zero. If reconcile failed and the
  retry count is below \<open>maxRetries\<close>, the error is logged and the queue is the result of
  \<open>AddRateLimited\<close> and \<open>Done\<close>: the retry count goes up by one and, on an open queue,
  the key waits for its backoff delay. If reconcile failed and the retry count has
  reached \<open>maxRetries\<close>, the error is handed to \<open>HandleError\<close> and the queue is the result
  of \<open>Forget\<close> and \<open>Done\<close>: the retry count is zero and no retry is scheduled.
\<close>

theorem processNextItem_retry_ceiling:
  assumes "Dequeue (queue c) = Returned (Some key, q)"
    and "reconcile (adapter_ns c) key (world c) = (r, w)"
  shows "\<exists>c'. processNextItem c = Returned (True, c') \<and> key \<notin> inflight (queue c') \<and>
     (case r of
        None \<Rightarrow>
          queue c' = Done key (Forget key q) \<and> world c' = w \<and>
          retry_count (queue c') key = 0 \<and> delayed (queue c') = delayed (queue c)
      | Some err \<Rightarrow>
          if int (retry_count (queue c) key) < maxRetries c
          then queue c' = Done key (AddRateLimited key q) \<and>
               world c' = log_line (ErrorWith (''Error reconciling '' @ key) err) w \<and>
               retry_count (queue c') key = Suc (retry_count (queue c) key) \<and>
               (\<not> closed (queue c) \<and> 0 < current_delay key (queue c) \<longrightarrow>
                  delayed (queue c') = delayed (queue c) @ [(key, current_delay key (queue c))])
          else queue c' = Done key (Forget key q) \<and>
               world c' = log_line (Handled err) w \<and>
               retry_count (queue c') key = 0 \<and> delayed (queue c') = delayed (queue c))"
proof -
  let ?c = "c\<lparr>queue := q\<rparr>"
  note dq = Dequeue_Some [OF assms(1)]
  have p: "processNextItem c = Returned (True, finish_item key ?c)"
    by (rule processNextItem_item [OF assms(1)])
  have rec: "reconcile (adapter_ns ?c) key (world ?c) = (r, w)"
    using assms(2) by simp
  have cd: "current_delay key q = current_delay key (queue c)"
    using dq by (simp add: current_delay_def)
  show ?thesis
  proof (cases r)
    case None
    with rec have "finish_item key ?c = ?c\<lparr>world := w, queue := Done key (Forget key q)\<rparr>"
      by (simp add: finish_item_ok)
    with p None dq show ?thesis by simp
  next
    case (Some err)
    show ?thesis
    proof (cases "int (retry_count (queue c) key) < maxRetries c")
      case True
      with rec Some dq
      have "finish_item key ?c =
              ?c\<lparr>world := log_line (ErrorWith (''Error reconciling '' @ key) err) w,
                 queue := Done key (AddRateLimited key q)\<rparr>"
        by (simp add: finish_item_retry)
      with p Some True dq cd AddRateLimited_delayed [of q key] show ?thesis by simp
    next
      case False
      with rec Some dq
      have "finish_item key ?c =
              ?c\<lparr>world := log_line (Handled err) w, queue := Done key (Forget key q)\<rparr>"
        by (simp add: finish_item_drop)
      with p Some False dq show ?thesis by simp
    qed
  qed
qed


theorem processNextItem_retry_ceiling_witness:
  "Dequeue (queue controller_a1)
     = Returned (Some ''default/a1'', (queue controller_a1)\<lparr>pending := [], inflight := {''default/a1''}\<rparr>) \<and>
   reconcile (adapter_ns controller_a1) ''default/a1'' (world controller_a1)
     = (Some (ApiError Unavailable), empty_cluster) \<and>
   int (retry_count (queue controller_a1) ''default/a1'') < maxRetries controller_a1 \<and>
   (\<exists>c'. processNextItem controller_a1 = Returned (True, c') \<and>
         ''default/a1'' \<notin> inflight (queue c') \<and>
         retry_count (queue c') ''default/a1'' = Suc (retry_count (queue controller_a1) ''default/a1''))"
proof -
  have d: "Dequeue (queue controller_a1)
     = Returned (Some ''default/a1'', (queue controller_a1)\<lparr>pending := [], inflight := {''default/a1''}\<rparr>)"
    by (simp add: Dequeue_def controller_a1_def new_queue_def)
  have r: "reconcile (adapter_ns controller_a1) ''default/a1'' (world controller_a1)
     = (Some (ApiError Unavailable), empty_cluster)"
    by (simp add: reconcile_def SplitMetaNamespaceKey_def client_defs controller_a1_def
        empty_cluster_def)
  have n: "int (retry_count (queue controller_a1) ''default/a1'') < maxRetries controller_a1"
    by (simp add: controller_a1_def new_queue_def)
  from processNextItem_retry_ceiling [OF d r] n
  have "\<exists>c'. processNextItem controller_a1 = Returned (True, c') \<and>
         ''default/a1'' \<notin> inflight (queue c') \<and>
         retry_count (queue c') ''default/a1'' = Suc (retry_count (queue controller_a1) ''default/a1'')"
    by auto
  with d r n show ?thesis by blast
qed


section \<open>Backoff\<close>

lemma funpow_AddRateLimited:
  "retry_count ((AddRateLimited key ^^ n) q) key = retry_count q key + n \<and>
   base_delay ((AddRateLimited key ^^ n) q) = base_delay q \<and>
   max_delay ((AddRateLimited key ^^ n) q) = max_delay q"
  by (induction n) simp_all

lemma current_delay_Forget:
  "base_delay q \<le> max_delay q \<Longrightarrow> current_delay key (Forget key q) = base_delay q"
  by (simp add: current_delay_def backoff_def)

lemma current_delay_AddRateLimited:
  "current_delay key q \<le> current_delay key (AddRateLimited key q)"
  by (simp add: current_delay_def backoff_mono)

lemma current_delay_Done [simp]: "current_delay key (Done k q) = current_delay key q"
  by (simp add: current_delay_def)

text \<open>
  Claim C8, as amended. The delay of the rate limiter is non-decreasing in the retry
  count; the \<open>n\<close>-th consecutive \<open>AddRateLimited\<close> of a key asks for the backoff of its
  retry count plus \<open>n\<close>, so each consecutive retry of a key waits at least as long as
  the one before, and another key's failures do not change it; after \<open>Forget\<close> the
  delay is the base delay again (the base delay does not exceed the maximum). In
  \<open>processNextItem\<close>: after a failure below the retry ceiling the key's delay is at
  least what it was; after a successful reconcile, and also after a failure at the
  ceiling (the item is dropped with \<open>Forget\<close>), the key's delay is the base delay.
\<close>

theorem backoff_monotone_and_reset:
  "(n \<le> m \<longrightarrow> backoff base cap n \<le> backoff base cap m) \<and>
   current_delay key ((AddRateLimited key ^^ n) q)
     = backoff (base_delay q) (max_delay q) (retry_count q key + n) \<and>
   current_delay key q \<le> current_delay key (AddRateLimited key q) \<and>
   (key' \<noteq> key \<longrightarrow> current_delay key (AddRateLimited key' q) = current_delay key q) \<and>
   (base_delay q \<le> max_delay q \<longrightarrow> current_delay key (Forget key q) = base_delay q) \<and>
   (fst (reconcile (adapter_ns c) key (world c)) = None \<and>
    base_delay (queue c) \<le> max_delay (queue c) \<longrightarrow>
      current_delay key (queue (finish_item key c)) = base_delay (queue c)) \<and>
   (fst (reconcile (adapter_ns c) key (world c)) \<noteq> None \<and>
    int (NumRequeues key (queue c)) < maxRetries c \<longrightarrow>
      current_delay key (queue c) \<le> current_delay key (queue (finish_item key c))) \<and>
   (fst (reconcile (adapter_ns c) key (world c)) \<noteq> None \<and>
    \<not> int (NumRequeues key (queue c)) < maxRetries c \<and>
    base_delay (queue c) \<le> max_delay (queue c) \<longrightarrow>
      current_delay key (queue (finish_item key c)) = base_delay (queue c))"
proof -
  have 1: "n \<le> m \<longrightarrow> backoff base cap n \<le> backoff base cap m"
    by (simp add: backoff_mono)
  have 2: "current_delay key ((AddRateLimited key ^^ n) q)
     = backoff (base_delay q) (max_delay q) (retry_count q key + n)"
    by (simp add: current_delay_def funpow_AddRateLimited)
  have 3: "current_delay key q \<le> current_delay key (AddRateLimited key q)"
    by (rule current_delay_AddRateLimited)
  have 4: "key' \<noteq> key \<longrightarrow> current_delay key (AddRateLimited key' q) = current_delay key q"
    by (simp add: current_delay_def)
  have 5: "base_delay q \<le> max_delay q \<longrightarrow> current_delay key (Forget key q) = base_delay q"
    by (simp add: current_delay_Forget)
  have 6: "fst (reconcile (adapter_ns c) key (world c)) = None \<and>
    base_delay (queue c) \<le> max_delay (queue c) \<longrightarrow>
      current_delay key (queue (finish_item key c)) = base_delay (queue c)"
  proof (intro impI, elim conjE)
    assume a: "fst (reconcile (adapter_ns c) key (world c)) = None"
      and b: "base_delay (queue c) \<le> max_delay (queue c)"
    obtain w where "reconcile (adapter_ns c) key (world c) = (None, w)"
      using a by (cases "reconcile (adapter_ns c) key (world c)") simp
    then show "current_delay key (queue (finish_item key c)) = base_delay (queue c)"
      using b by (simp add: finish_item_ok current_delay_Forget)
  qed
  have 7: "fst (reconcile (adapter_ns c) key (world c)) \<noteq> None \<and>
    int (NumRequeues key (queue c)) < maxRetries c \<longrightarrow>
      current_delay key (queue c) \<le> current_delay key (queue (finish_item key c))"
  proof (intro impI, elim conjE)
    assume a: "fst (reconcile (adapter_ns c) key (world c)) \<noteq> None"
      and b: "int (NumRequeues key (queue c)) < maxRetries c"
    obtain err w where "reconcile (adapter_ns c) key (world c) = (Some err, w)"
      using a by (cases "reconcile (adapter_ns c) key (world c)") auto
    then show "current_delay key (queue c) \<le> current_delay key (queue (finish_item key c))"
      using b by (simp add: finish_item_retry NumRequeues_def current_delay_AddRateLimited)
  qed
  have 8: "fst (reconcile (adapter_ns c) key (world c)) \<noteq> None \<and>
    \<not> int (NumRequeues key (queue c)) < maxRetries c \<and>
    base_delay (queue c) \<le> max_delay (queue c) \<longrightarrow>
      current_delay key (queue (finish_item key c)) = base_delay (queue c)"
  proof (intro impI, elim conjE)
    assume a: "fst (reconcile (adapter_ns c) key (world c)) \<noteq> None"
      and b: "\<not> int (NumRequeues key (queue c)) < maxRetries c"
      and d: "base_delay (queue c) \<le> max_delay (queue c)"
    obtain err w where "reconcile (adapter_ns c) key (world c) = (Some err, w)"
      using a by (cases "reconcile (adapter_ns c) key (world c)") auto
    then show "current_delay key (queue (finish_item key c)) = base_delay (queue c)"
      using b d by (simp add: finish_item_drop NumRequeues_def current_delay_Forget)
  qed
  from 1 2 3 4 5 6 7 8 show ?thesis by blast
qed

theorem backoff_monotone_and_reset_witness:
  "(1::nat) \<le> 2 \<and> backoff 5 1000000 1 \<le> backoff 5 1000000 2 \<and>
   ''default/a2'' \<noteq> ''default/a1'' \<and>
   current_delay ''default/a1'' (AddRateLimited ''default/a2'' (queue controller_a1))
     = current_delay ''default/a1'' (queue controller_a1) \<and>
   base_delay (queue controller_a1) \<le> max_delay (queue controller_a1) \<and>
   current_delay ''default/a1'' (Forget ''default/a1'' (queue controller_a1))
     = base_delay (queue controller_a1) \<and>
   fst (reconcile (adapter_ns controller_a1) ''default/a1'' (world controller_a1)) \<noteq> None \<and>
   int (NumRequeues ''default/a1'' (queue controller_a1)) < maxRetries controller_a1 \<and>
   current_delay ''default/a1'' (queue controller_a1)
     \<le> current_delay ''default/a1'' (queue (finish_item ''default/a1'' controller_a1)) \<and>
   fst (reconcile (adapter_ns controller_at_ceiling) ''default/a1''
          (world controller_at_ceiling)) \<noteq> None \<and>
   \<not> int (NumRequeues ''default/a1'' (queue controller_at_ceiling))
       < maxRetries controller_at_ceiling \<and>
   base_delay (queue controller_at_ceiling) \<le> max_delay (queue controller_at_ceiling) \<and>
   current_delay ''default/a1'' (queue (finish_item ''default/a1'' controller_at_ceiling))
     = base_delay (queue controller_at_ceiling)"
proof -
  have a: "(1::nat) \<le> 2" by simp
  have b: "''default/a2'' \<noteq> ''default/a1''" by simp
  have c: "base_delay (queue controller_a1) \<le> max_delay (queue controller_a1)"
    by (simp add: controller_a1_def new_queue_def)
  have d: "fst (reconcile (adapter_ns controller_a1) ''default/a1'' (world controller_a1)) \<noteq> None"
    by (simp add: reconcile_def SplitMetaNamespaceKey_def client_defs controller_a1_def
        empty_cluster_def)
  have e: "int (NumRequeues ''default/a1'' (queue controller_a1)) < maxRetries controller_a1"
    by (simp add: controller_a1_def new_queue_def NumRequeues_def)
  have f: "fst (reconcile (adapter_ns controller_at_ceiling) ''default/a1''
          (world controller_at_ceiling)) \<noteq> None"
    by (simp add: reconcile_def SplitMetaNamespaceKey_def client_defs controller_at_ceiling_def
        controller_a1_def empty_cluster_def)
  have g: "\<not> int (NumRequeues ''default/a1'' (queue controller_at_ceiling))
       < maxRetries controller_at_ceiling"
    by (simp add: controller_at_ceiling_def controller_a1_def NumRequeues_def)
  have h: "base_delay (queue controller_at_ceiling) \<le> max_delay (queue controller_at_ceiling)"
    by (simp add: controller_at_ceiling_def controller_a1_def new_queue_def)
  from a b c d e f g h
    backoff_monotone_and_reset [of 1 2 5 1000000 "''default/a1''" "queue controller_a1"
      "''default/a2''" controller_a1]
    backoff_monotone_and_reset [of 1 2 5 1000000 "''default/a1''" "queue controller_a1"
      "''default/a2''" controller_at_ceiling]
  show ?thesis by blast
qed

text \<open>
  Claim C8 as stated fails: the delays of consecutive failures of one key are not
  non-decreasing across the retry ceiling. With \<open>maxRetries = 5\<close> and base delay 5, a
  key whose retry count is 5 has delay 160 before its next failing reconcile and 5
  after it, with no success: \<open>processNextItem\<close> calls \<open>Forget\<close> when it drops the item.
  In a run where every reconcile of the key fails, the fifth failure waits 80, the
  sixth drops the item and resets its retry count, and the seventh (after a new
  notification) waits 5.
\<close>

lemmas retry_defs = five_failures_def start_one_worker_def fail_once_def retry_fails_def
  run_defs finish_item_def reconcile_def SplitMetaNamespaceKey_def client_defs
  Done_def Forget_def AddRateLimited_def AddAfter_def current_delay_def backoff_def
  NumRequeues_def delay_elapsed_def

theorem delay_falls_at_the_ceiling:
  "fst (reconcile (adapter_ns controller_at_ceiling) ''default/a1'' (world controller_at_ceiling))
     \<noteq> None \<and>
   current_delay ''default/a1'' (queue controller_at_ceiling) = 160 \<and>
   current_delay ''default/a1'' (queue (finish_item ''default/a1'' controller_at_ceiling)) = 5 \<and>
   map_option (\<lambda>s. delayed (queue s)) (crun five_failures controller_new)
     = Some [(''default/a1'', 80)] \<and>
   map_option (\<lambda>s. (delayed (queue s), pending (queue s), retry_count (queue s) ''default/a1''))
     (crun (five_failures @ retry_fails) controller_new) = Some ([], [], 0) \<and>
   map_option (\<lambda>s. delayed (queue s))
     (crun (five_failures @ retry_fails @ Informer_event agent_a1 # fail_once) controller_new)
     = Some [(''default/a1'', 5)]"
  by (simp add: controller_at_ceiling_def controller_a1_def retry_defs)


section \<open>The controller's run: invariants\<close>


lemma queue_ok_new: "queue_ok (new_queue base cap)"
  by (simp add: queue_ok_def new_queue_def)

lemma queue_ok_Enqueue: "queue_ok q \<Longrightarrow> queue_ok (Enqueue k q)"
  by (auto simp: queue_ok_def Enqueue_def)

lemma queue_ok_Done: "queue_ok q \<Longrightarrow> queue_ok (Done k q)"
  by (auto simp: queue_ok_def Done_def)

lemma queue_ok_Forget: "queue_ok q \<Longrightarrow> queue_ok (Forget k q)"
  by (simp add: queue_ok_def)

lemma queue_ok_AddAfter: "queue_ok q \<Longrightarrow> queue_ok (AddAfter k d q)"
  by (auto simp: AddAfter_def queue_ok_Enqueue) (simp add: queue_ok_def)

lemma queue_ok_AddRateLimited: "queue_ok q \<Longrightarrow> queue_ok (AddRateLimited k q)"
  unfolding AddRateLimited_def by (rule queue_ok_AddAfter) (simp add: queue_ok_def)

lemma queue_ok_ShutDown: "queue_ok q \<Longrightarrow> queue_ok (ShutDown q)"
  by (simp add: queue_ok_def ShutDown_def)

lemma queue_ok_delay_elapsed: "queue_ok q \<Longrightarrow> delay_elapsed i q = Some q' \<Longrightarrow> queue_ok q'"
  by (auto simp: delay_elapsed_def split: if_splits intro!: queue_ok_Enqueue) (simp add: queue_ok_def)

lemma queue_ok_Dequeue:
  "queue_ok q \<Longrightarrow> Dequeue q = Returned (r, q') \<Longrightarrow> queue_ok q'"
  by (auto simp: queue_ok_def Dequeue_def split: list.splits if_splits)

lemma Dequeue_fresh_key:
  "queue_ok q \<Longrightarrow> Dequeue q = Returned (Some k, q') \<Longrightarrow> k \<notin> inflight q"
  by (auto simp: queue_ok_def Dequeue_def split: list.splits if_splits)

lemma inflight_delay_elapsed: "delay_elapsed i q = Some q' \<Longrightarrow> inflight q' = inflight q"
  by (auto simp: delay_elapsed_def split: if_splits)

lemma inflight_ShutDown [simp]: "inflight (ShutDown q) = inflight q"
  by (simp add: ShutDown_def)

lemma queue_ok_finish_item: "queue_ok (queue c) \<Longrightarrow> queue_ok (queue (finish_item key c))"
  by (auto simp: finish_item_def queue_ok_Done queue_ok_Forget queue_ok_AddRateLimited
      split: prod.splits option.splits)

lemma inflight_finish_item: "inflight (queue (finish_item key c)) = inflight (queue c) - {key}"
  by (auto simp: finish_item_def split: prod.splits option.splits)

lemma workers_finish_item [simp]: "workers (finish_item key c) = workers c"
  by (auto simp: finish_item_def split: prod.splits option.splits)

lemma in_progress_split:
  "i < length ws \<Longrightarrow>
     in_progress ws = in_progress (take i ws) @ held (ws ! i) @ in_progress (drop (Suc i) ws)"
  unfolding in_progress_def
  by (subst id_take_nth_drop [of i ws]) (simp_all del: append_take_drop_id)

lemma in_progress_update:
  "i < length ws \<Longrightarrow>
     in_progress (ws[i := w]) = in_progress (take i ws) @ held w @ in_progress (drop (Suc i) ws)"
  unfolding in_progress_def
  by (simp add: upd_conv_take_nth_drop)

lemma in_progress_replicate [simp]: "in_progress (replicate n Until) = []"
  by (simp add: in_progress_def)

lemma ctrl_ok_cfire:
  assumes "ctrl_ok s" and "cfire e s = Some s'"
  shows "ctrl_ok s'"
proof (cases e)
  case (Get_returns i)
  with assms(2) have i: "i < length (workers s)" and g: "workers s ! i = Getting"
    by (auto split: if_splits)
  from in_progress_split [OF i] g
  have old: "in_progress (workers s) = in_progress (take i (workers s)) @ in_progress (drop (Suc i) (workers s))"
    by simp
  show ?thesis
  proof (cases "Dequeue (queue s)")
    case (Returned x)
    obtain r q where x: "x = (r, q)" by (cases x)
    from assms(1) have qok: "queue_ok (queue s)" by (simp add: ctrl_ok_def)
    from queue_ok_Dequeue [OF qok] Returned x have q': "queue_ok q" by simp
    show ?thesis
    proof (cases r)
      case None
      with Get_returns assms(2) i g Returned x
      have s': "s' = s\<lparr>queue := q, workers := (workers s)[i := Until]\<rparr>" by simp
      from Returned x None have "q = queue s" by (auto simp: Dequeue_def split: list.splits if_splits)
      with s' assms(1) q' old in_progress_update [OF i, of Until] show ?thesis
        by (simp add: ctrl_ok_def)
    next
      case (Some k)
      with Get_returns assms(2) i g Returned x
      have s': "s' = s\<lparr>queue := q, workers := (workers s)[i := Reconciling k]\<rparr>" by simp
      from Returned x Some have dq: "Dequeue (queue s) = Returned (Some k, q)" by simp
      from Dequeue_fresh_key [OF qok dq] have fresh: "k \<notin> inflight (queue s)" .
      from dq have infl: "inflight q = insert k (inflight (queue s))"
        by (auto simp: Dequeue_def split: list.splits if_splits)
      from s' assms(1) q' old in_progress_update [OF i, of "Reconciling k"] fresh infl
      show ?thesis by (auto simp: ctrl_ok_def)
    qed
  next
    case Blocked
    with Get_returns assms(2) i g show ?thesis by simp
  next
    case (Panicked m)
    with Get_returns assms(2) i g show ?thesis by simp
  qed
next
  case (Item_finished i)
  with assms(2) obtain k where i: "i < length (workers s)" and g: "workers s ! i = Reconciling k"
    and s': "s' = (finish_item k s)\<lparr>workers := (workers s)[i := Getting]\<rparr>"
    by (auto split: if_splits worker.splits)
  from in_progress_split [OF i] g
  have old: "in_progress (workers s) = in_progress (take i (workers s)) @ [k] @ in_progress (drop (Suc i) (workers s))"
    by simp
  from s' assms(1) old in_progress_update [OF i, of Getting]
  show ?thesis
    by (auto simp: ctrl_ok_def queue_ok_finish_item inflight_finish_item)
next
  case (Until_loop i)
  with assms(2) have i: "i < length (workers s)" and g: "workers s ! i = Until"
    and s': "s' = s\<lparr>workers := (workers s)[i := (if stopCh_closed s then Gone else Getting)]\<rparr>"
    by (auto split: if_splits)
  from in_progress_split [OF i] g
  have old: "in_progress (workers s) = in_progress (take i (workers s)) @ in_progress (drop (Suc i) (workers s))"
    by simp
  from s' assms(1) old in_progress_update [OF i, of Gone] in_progress_update [OF i, of Getting]
  show ?thesis by (auto simp: ctrl_ok_def)
next
  case (Delay_over j)
  with assms(2) obtain q where d: "delay_elapsed j (queue s) = Some q"
    and s': "s' = s\<lparr>queue := q\<rparr>"
    by (auto split: option.splits)
  from assms(1) queue_ok_delay_elapsed [OF _ d] inflight_delay_elapsed [OF d] s'
  show ?thesis by (simp add: ctrl_ok_def)
qed (use assms in \<open>auto simp: ctrl_ok_def queue_ok_Enqueue queue_ok_ShutDown split: if_splits\<close>)

lemma ctrl_ok_crun: "ctrl_ok s \<Longrightarrow> crun es s = Some s' \<Longrightarrow> ctrl_ok s'"
  by (induction es arbitrary: s) (auto split: option.splits dest: ctrl_ok_cfire)


lemma NewController_fresh:
  assumes "NewController ke de ns base cap w = Inr c0"
  shows "queue c0 = new_queue base cap" "workers c0 = []" "run_at c0 = NotStarted"
    "HasSynced c0 = False" "informer_started c0 = False"
  using assms by (auto simp: NewController_def split: option.splits)

lemma ctrl_ok_New:
  assumes "NewController ke de ns base cap w = Inr c0"
  shows "ctrl_ok c0"
  using NewController_fresh [OF assms]
  by (simp add: ctrl_ok_def queue_ok_new in_progress_def)

lemma held_in_progress:
  "i < length ws \<Longrightarrow> ws ! i = Reconciling k \<Longrightarrow> k \<in> set (in_progress ws)"
  by (force simp: in_progress_def in_set_conv_nth)

lemma distinct_in_progress_index:
  assumes "distinct (in_progress ws)" and "i < length ws" and "j < length ws"
    and "ws ! i = Reconciling k" and "ws ! j = Reconciling k"
  shows "i = j"
proof (rule ccontr)
  assume ne: "i \<noteq> j"
  from in_progress_split [OF assms(2)] assms(4)
  have sp: "in_progress ws = in_progress (take i ws) @ [k] @ in_progress (drop (Suc i) ws)"
    by simp
  with assms(1) have nk: "k \<notin> set (in_progress (take i ws))" "k \<notin> set (in_progress (drop (Suc i) ws))"
    by auto
  show False
  proof (cases "j < i")
    case True
    with assms(2,5) have "j < length (take i ws)" "take i ws ! j = Reconciling k" by simp_all
    from held_in_progress [OF this] nk show False by simp
  next
    case False
    with ne have gt: "i < j" by simp
    then obtain d where d: "j = Suc i + d" by (metis less_iff_Suc_add add_Suc)
    with assms(3,5) have "d < length (drop (Suc i) ws)" "drop (Suc i) ws ! d = Reconciling k"
      by (simp_all add: add.commute)
    from held_in_progress [OF this] nk show False by simp
  qed
qed

lemma length_in_progress: "length (in_progress ws) \<le> length ws"
proof (induction ws)
  case Nil
  show ?case by (simp add: in_progress_def)
next
  case (Cons w ws)
  then show ?case by (cases w) (simp_all add: in_progress_def)
qed

lemma finish_item_frame [simp]:
  "run_at (finish_item key c) = run_at c" "run_workers (finish_item key c) = run_workers c"
  "HasSynced (finish_item key c) = HasSynced c"
  "informer_started (finish_item key c) = informer_started c"
  "stopCh_closed (finish_item key c) = stopCh_closed c"
  "adapter_ns (finish_item key c) = adapter_ns c" "maxRetries (finish_item key c) = maxRetries c"
  by (auto simp: finish_item_def split: prod.splits option.splits)

lemma pool_ok_cfire:
  assumes "pool_ok s" and "cfire e s = Some s'"
  shows "pool_ok s'"
  using assms by (cases e) (auto simp: pool_ok_def split: if_splits option.splits outcome.splits worker.splits)

lemma pool_ok_crun: "pool_ok s \<Longrightarrow> crun es s = Some s' \<Longrightarrow> pool_ok s'"
  by (induction es arbitrary: s) (auto split: option.splits dest: pool_ok_cfire)

lemma pool_ok_New:
  assumes "NewController ke de ns base cap w = Inr c0"
  shows "pool_ok c0"
  using NewController_fresh [OF assms] by (simp add: pool_ok_def)

lemma controller_exclusion:
  assumes "NewController ke de ns base cap w = Inr c0" and "crun es c0 = Some s"
  shows "distinct (in_progress (workers s)) \<and>
         (\<forall>i j key. i < length (workers s) \<and> j < length (workers s) \<and>
             workers s ! i = Reconciling key \<and> workers s ! j = Reconciling key \<longrightarrow> i = j) \<and>
         length (in_progress (workers s)) \<le> nat (run_workers s)"
proof -
  from ctrl_ok_crun [OF ctrl_ok_New [OF assms(1)] assms(2)]
  have d: "distinct (in_progress (workers s))" by (simp add: ctrl_ok_def)
  from pool_ok_crun [OF pool_ok_New [OF assms(1)] assms(2)]
  have "length (workers s) \<le> nat (run_workers s)" by (simp add: pool_ok_def)
  with length_in_progress [of "workers s"]
  have l: "length (in_progress (workers s)) \<le> nat (run_workers s)" by simp
  from d l distinct_in_progress_index [OF d] show ?thesis by blast
qed


lemma Enqueue_inflight:
  "k \<in> inflight q \<Longrightarrow> \<not> closed q \<Longrightarrow> k \<notin> set (pending q) \<Longrightarrow>
     Enqueue k q = q\<lparr>dirty := insert k (dirty q)\<rparr>"
  by (simp add: Enqueue_def)

lemma funpow_Enqueue_inflight:
  assumes "k \<in> inflight q" and "\<not> closed q" and "k \<notin> set (pending q)"
  shows "(Enqueue k ^^ Suc n) q = q\<lparr>dirty := insert k (dirty q)\<rparr>"
proof (induction n)
  case 0
  from assms show ?case by (simp add: Enqueue_inflight)
next
  case (Suc n)
  have "(Enqueue k ^^ Suc (Suc n)) q = Enqueue k ((Enqueue k ^^ Suc n) q)" by simp
  also have "\<dots> = Enqueue k (q\<lparr>dirty := insert k (dirty q)\<rparr>)" by (simp only: Suc)
  also from assms have "\<dots> = q\<lparr>dirty := insert k (dirty q)\<rparr>"
    by (simp add: Enqueue_def)
  finally show ?case .
qed

lemma coalesce_inflight:
  assumes "queue_ok q" and "k \<in> inflight q" and "\<not> closed q"
  shows "pending (Done k ((Enqueue k ^^ Suc n) q)) = pending q @ [k] \<and> k \<notin> set (pending q) \<and>
         k \<notin> dirty (Done k ((Enqueue k ^^ Suc n) q)) \<and>
         k \<notin> inflight (Done k ((Enqueue k ^^ Suc n) q))"
proof -
  from assms(1,2) have np: "k \<notin> set (pending q)" by (auto simp: queue_ok_def)
  from funpow_Enqueue_inflight [OF assms(2,3) np, of n] np show ?thesis
    by (simp add: Done_def)
qed

lemma no_enqueue_no_rerun:
  assumes "queue_ok q" and "k \<notin> dirty q"
  shows "pending (Done k q) = pending q"
  using assms by (simp add: Done_def)


lemma crun_append:
  "crun (es @ fs) s = (case crun es s of None \<Rightarrow> None | Some s' \<Rightarrow> crun fs s')"
  by (induction es arbitrary: s) (auto split: option.splits)

lemma sync_trace_ok_step:
  assumes "sync_trace_ok es s" and "cfire e s = Some s'"
  shows "sync_trace_ok (es @ [e]) s'"
proof (cases e)
  case (Item_finished i)
  with assms show ?thesis
    by (auto simp: sync_trace_ok_def split: if_splits worker.splits)
next
  case (Get_returns i)
  with assms show ?thesis
    by (auto simp: sync_trace_ok_def split: if_splits outcome.splits option.splits prod.splits)
qed (use assms in \<open>auto simp: sync_trace_ok_def split: if_splits option.splits\<close>)

lemma sync_trace_ok_crun:
  assumes "sync_trace_ok [] c0" and "crun es c0 = Some s"
  shows "sync_trace_ok es s"
  using assms(2)
proof (induction es arbitrary: s rule: rev_induct)
  case Nil
  with assms(1) show ?case by simp
next
  case (snoc e es)
  from snoc.prems obtain s1 where s1: "crun es c0 = Some s1" and f: "cfire e s1 = Some s"
    by (auto simp: crun_append split: option.splits)
  from sync_trace_ok_step [OF snoc.IH [OF s1] f] show ?case .
qed

lemma sync_trace_ok_New:
  assumes "NewController ke de ns base cap w = Inr c0"
  shows "sync_trace_ok [] c0"
  using NewController_fresh [OF assms] by (simp add: sync_trace_ok_def)

lemma worker_event_needs_worker:
  "worker_event e \<Longrightarrow> cfire e s = Some s' \<Longrightarrow> workers s \<noteq> []"
  by (cases e) (auto split: if_splits)

lemma worker_event_after_sync:
  assumes "NewController ke de ns base cap w = Inr c0" and "crun (pre @ e # post) c0 = Some s"
    and "worker_event e"
  shows "Informer_synced \<in> set pre \<and> Sync_true \<in> set pre"
proof -
  from assms(2) obtain s1 s2 where s1: "crun pre c0 = Some s1" and f: "cfire e s1 = Some s2"
    by (auto simp: crun_append split: option.splits)
  from sync_trace_ok_crun [OF sync_trace_ok_New [OF assms(1)] s1]
    worker_event_needs_worker [OF assms(3) f]
  show ?thesis by (simp add: sync_trace_ok_def)
qed

lemma no_sync_no_worker:
  assumes "NewController ke de ns base cap w = Inr c0" and "crun es c0 = Some s"
    and "Sync_false \<in> set es \<or> Informer_synced \<notin> set es"
  shows "workers s = [] \<and> (\<forall>e \<in> set es. \<not> worker_event e)"
proof -
  from sync_trace_ok_crun [OF sync_trace_ok_New [OF assms(1)] assms(2)] assms(3)
  have ns: "Sync_true \<notin> set es" and w: "workers s = []"
    by (auto simp: sync_trace_ok_def)
  have "\<not> worker_event e" if "e \<in> set es" for e
  proof
    assume we: "worker_event e"
    from that obtain pre post where sp: "es = pre @ e # post" by (auto dest: split_list)
    from worker_event_after_sync [OF assms(1) assms(2) [unfolded sp] we] sp ns
    show False by simp
  qed
  with w show ?thesis by blast
qed


section \<open>The orchestrator: invariants\<close>


lemma running_update:
  "i < length ws \<Longrightarrow>
     running (ws[i := w]) + (if ws ! i \<noteq> Stopped then 1 else 0)
       = running ws + (if w \<noteq> Stopped then 1 else 0)"
proof (induction ws arbitrary: i)
  case Nil
  then show ?case by simp
next
  case (Cons a ws)
  show ?case
  proof (cases i)
    case 0
    then show ?thesis by (simp add: running_def)
  next
    case (Suc j)
    with Cons.prems have "j < length ws" by simp
    from Cons.IH [OF this] Suc show ?thesis by (auto simp: running_def split: if_splits)
  qed
qed

lemma running_replicate: "running (replicate n Selecting) = n"
  by (simp add: running_def)

lemma running_zero: "running ws = 0 \<Longrightarrow> \<forall>w \<in> set ws. w = Stopped"
  by (auto simp: running_def filter_empty_conv)

lemma orch_ok_New: "orch_ok (NewOrchestrator adapter ns count)"
  by (simp add: orch_ok_def NewOrchestrator_def running_replicate)

lemma SubmitTask_Returned:
  "SubmitTask t s = Returned s' \<Longrightarrow> s' = s\<lparr>taskQueue := taskQueue s @ [t]\<rparr>"
  by (auto simp: SubmitTask_def split: if_splits)

lemma receive_Returned:
  "receive s = Returned (t, s') \<Longrightarrow>
     s' = s\<lparr>taskQueue := taskQueue s', blocked_sends := blocked_sends s'\<rparr>"
  by (auto simp: receive_def split: list.splits if_splits)

lemma ofire_cases:
  assumes "ofire e s = Some s'"
  obtains
    (submit) t where "e = Submit t" "s' = s\<lparr>taskQueue := taskQueue s @ [t]\<rparr>"
      "SubmitTask t s = Returned s'"
  | (submit_parks) t where "e = Submit t" "s' = s\<lparr>blocked_sends := blocked_sends s @ [t]\<rparr>"
      "SubmitTask t s = Blocked"
  | (submit_panic) t m where "e = Submit t" "s' = s\<lparr>crashed := Some m\<rparr>"
      "SubmitTask t s = Panicked m"
  | (receives) i t ts bs where "e = Worker_receives i" "i < length (oworkers s)"
      "oworkers s ! i = Selecting"
      "receive s = Returned (t, s\<lparr>taskQueue := ts, blocked_sends := bs\<rparr>)"
      "s' = s\<lparr>taskQueue := ts, blocked_sends := bs,
               k8s := log_line (Info ''Worker processing task'') (k8s s),
               oworkers := (oworkers s)[i := Handling t]\<rparr>"
  | (stops) i where "e = Worker_stops i" "i < length (oworkers s)"
      "oworkers s ! i = Selecting" "ctx_done s"
      "s' = s\<lparr>k8s := log_line (Info ''Worker stopping'') (k8s s),
               oworkers := (oworkers s)[i := Stopped], wg := wg s - 1\<rparr>"
  | (handles) i t r c where "e = Worker_handles i" "i < length (oworkers s)"
      "oworkers s ! i = Handling t" "handleTask t s = Returned (r, c)"
      "\<exists>c'. s' = s\<lparr>k8s := c', oworkers := (oworkers s)[i := Selecting]\<rparr>"
  | (handles_panic) i t m where "e = Worker_handles i" "i < length (oworkers s)"
      "oworkers s ! i = Handling t" "handleTask t s = Panicked m"
      "s' = s\<lparr>crashed := Some m\<rparr>"
  | (called) "e = Shutdown_called"
      "s' = s\<lparr>ctx_done := True, shutdown_waiting := Suc (shutdown_waiting s),
               shutdown_at := (if shutdown_at s = NotCalled then Waiting else shutdown_at s)\<rparr>"
  | (returns) m where "e = Shutdown_returns" "wg s = 0" "\<not> taskQueue_closed s"
      "0 < shutdown_waiting s"
      "s' = s\<lparr>taskQueue_closed := True, shutdown_waiting := shutdown_waiting s - 1,
               shutdown_at := Closed, crashed := m\<rparr>"
  | (closes_twice) "e = Shutdown_returns" "wg s = 0" "taskQueue_closed s"
      "0 < shutdown_waiting s"
      "s' = s\<lparr>crashed := Some ''close of closed channel''\<rparr>"
proof (cases e)
  case (Submit t)
  with assms have c: "crashed s = None" by (auto simp: ofire_def split: if_splits)
  show ?thesis
  proof (cases "SubmitTask t s")
    case (Returned s1)
    with Submit assms c have "s' = s1" by (simp add: ofire_def)
    with Returned SubmitTask_Returned [of t s s1] Submit show ?thesis
      by (intro submit [of t]) simp_all
  next
    case Blocked
    with Submit assms c have "s' = s\<lparr>blocked_sends := blocked_sends s @ [t]\<rparr>"
      by (simp add: ofire_def)
    with Blocked Submit show ?thesis by (intro submit_parks [of t]) simp_all
  next
    case (Panicked m)
    with Submit assms c have "s' = s\<lparr>crashed := Some m\<rparr>" by (simp add: ofire_def)
    with Panicked Submit show ?thesis by (intro submit_panic [of t m]) simp_all
  qed
next
  case (Worker_receives i)
  with assms have c: "crashed s = None" "i < length (oworkers s)" "oworkers s ! i = Selecting"
    by (auto simp: ofire_def split: if_splits)
  show ?thesis
  proof (cases "receive s")
    case (Returned x)
    obtain t s1 where x: "x = (t, s1)" by (cases x)
    from receive_Returned [of s t s1] Returned x
    obtain ts bs where s1: "s1 = s\<lparr>taskQueue := ts, blocked_sends := bs\<rparr>"
      by blast
    with Worker_receives assms c Returned x
    have "s' = s\<lparr>taskQueue := ts, blocked_sends := bs,
               k8s := log_line (Info ''Worker processing task'') (k8s s),
               oworkers := (oworkers s)[i := Handling t]\<rparr>"
      by (simp add: ofire_def)
    with Worker_receives c Returned x s1 show ?thesis by (intro receives) simp_all
  next
    case Blocked
    with Worker_receives assms c show ?thesis by (simp add: ofire_def)
  next
    case (Panicked m)
    with Worker_receives assms c show ?thesis by (simp add: ofire_def)
  qed
next
  case (Worker_stops i)
  with assms show ?thesis
    by (auto simp: ofire_def split: if_splits intro: stops)
next
  case (Worker_handles i)
  with assms obtain t where c: "crashed s = None" "i < length (oworkers s)"
      "oworkers s ! i = Handling t"
    by (auto simp: ofire_def split: if_splits oworker.splits)
  show ?thesis
  proof (cases "handleTask t s")
    case (Returned x)
    obtain r cl where x: "x = (r, cl)" by (cases x)
    with Worker_handles assms c Returned
    have "\<exists>c'. s' = s\<lparr>k8s := c', oworkers := (oworkers s)[i := Selecting]\<rparr>"
      by (cases r) (auto simp: ofire_def)
    with Worker_handles c Returned x show ?thesis by (intro handles) simp_all
  next
    case Blocked
    with Worker_handles assms c show ?thesis by (simp add: ofire_def)
  next
    case (Panicked m)
    with Worker_handles assms c have "s' = s\<lparr>crashed := Some m\<rparr>" by (simp add: ofire_def)
    with Worker_handles c Panicked show ?thesis by (intro handles_panic) simp_all
  qed
next
  case Shutdown_called
  with assms show ?thesis by (auto simp: ofire_def split: if_splits intro: called)
next
  case Shutdown_returns
  with assms have c: "crashed s = None" "wg s = 0" "0 < shutdown_waiting s"
    by (auto simp: ofire_def split: if_splits)
  show ?thesis
  proof (cases "taskQueue_closed s")
    case True
    with Shutdown_returns assms c have "s' = s\<lparr>crashed := Some ''close of closed channel''\<rparr>"
      by (auto simp: ofire_def split: if_splits)
    with Shutdown_returns c True show ?thesis by (intro closes_twice) simp_all
  next
    case False
    with Shutdown_returns assms c
    have "s' = s\<lparr>taskQueue_closed := True, shutdown_waiting := shutdown_waiting s - 1,
               shutdown_at := Closed,
               crashed := (if blocked_sends s = [] then None
                           else Some ''send on closed channel'')\<rparr>"
      by (auto simp: ofire_def split: if_splits)
    with Shutdown_returns c False show ?thesis by (intro returns) simp_all
  qed
qed

lemma orch_ok_ofire:
  assumes "orch_ok s" and "ofire e s = Some s'"
  shows "orch_ok s'"
  using assms(2)
proof (cases rule: ofire_cases)
  case (receives i t ts bs)
  from running_update [OF receives(2), of "Handling t"] receives(3)
  have "running ((oworkers s)[i := Handling t]) = running (oworkers s)" by simp
  with assms(1) receives show ?thesis by (auto simp: orch_ok_def)
next
  case (stops i)
  from running_update [OF stops(2), of Stopped] stops(3)
  have "running ((oworkers s)[i := Stopped]) + 1 = running (oworkers s)" by simp
  with assms(1) stops show ?thesis by (auto simp: orch_ok_def)
next
  case (handles i t r c)
  from running_update [OF handles(2), of Selecting] handles(3)
  have "running ((oworkers s)[i := Selecting]) = running (oworkers s)" by simp
  with assms(1) handles show ?thesis by (auto simp: orch_ok_def)
qed (use assms(1) in \<open>auto simp: orch_ok_def\<close>)

lemma orch_ok_orun: "orch_ok s \<Longrightarrow> orun es s = Some s' \<Longrightarrow> orch_ok s'"
  by (induction es arbitrary: s) (auto split: option.splits dest: orch_ok_ofire)

lemma length_oworkers_ofire: "ofire e s = Some s' \<Longrightarrow> length (oworkers s') = length (oworkers s)"
  by (cases rule: ofire_cases) auto

lemma length_oworkers_orun: "orun es s = Some s' \<Longrightarrow> length (oworkers s') = length (oworkers s)"
  by (induction es arbitrary: s) (auto split: option.splits dest: length_oworkers_ofire)

lemma length_being_handled: "length (being_handled ws) \<le> length ws"
proof (induction ws)
  case Nil
  show ?case by (simp add: being_handled_def)
next
  case (Cons w ws)
  then show ?case by (cases w) (simp_all add: being_handled_def)
qed

lemma orchestrator_bound:
  assumes "orun es (NewOrchestrator adapter ns count) = Some s"
  shows "length (being_handled (oworkers s)) \<le> nat count"
proof -
  from length_oworkers_orun [OF assms] have "length (oworkers s) = nat count"
    by (simp add: NewOrchestrator_def)
  with length_being_handled [of "oworkers s"] show ?thesis by simp
qed

lemma handling_until_handled:
  assumes "ofire e s = Some s'" and "i < length (oworkers s)" and "oworkers s ! i = Handling t"
  shows "oworkers s' ! i = Handling t \<or>
         (e = Worker_handles i \<and> oworkers s' ! i = Selecting \<and>
          (\<exists>r c. handleTask t s = Returned (r, c)))"
  using assms(1)
proof (cases rule: ofire_cases)
  case (receives j t' ts bs)
  with assms(2,3) show ?thesis by (cases "i = j") auto
next
  case (stops j)
  with assms(2,3) show ?thesis by (cases "i = j") auto
next
  case (handles j t' r c)
  with assms(2,3) show ?thesis by (cases "i = j") auto
qed (use assms(3) in auto)

lemma stops_only_from_select:
  assumes "ofire e s = Some s'" and "i < length (oworkers s)"
    and "oworkers s ! i \<noteq> Stopped" and "oworkers s' ! i = Stopped"
  shows "e = Worker_stops i \<and> oworkers s ! i = Selecting \<and> ctx_done s"
  using assms(1)
proof (cases rule: ofire_cases)
  case (receives j t' ts bs)
  with assms(2-4) show ?thesis by (cases "i = j") auto
next
  case (stops j)
  with assms(2-4) show ?thesis by (cases "i = j") auto
next
  case (handles j t' r c)
  with assms(2-4) show ?thesis by (cases "i = j") auto
qed (use assms(3,4) in auto)

lemma shutdown_after_workers:
  assumes "orun es (NewOrchestrator adapter ns count) = Some s" and "shutdown_at s = Closed"
  shows "\<forall>w \<in> set (oworkers s). w = Stopped"
proof -
  from orch_ok_orun [OF orch_ok_New assms(1)] assms(2) have "running (oworkers s) = 0"
    by (simp add: orch_ok_def)
  then show ?thesis by (rule running_zero)
qed


section \<open>Runs of the controller and the orchestrator: the claims\<close>


lemma crun_Some_the: "map_option f (crun es c) = Some x \<Longrightarrow> crun es c = Some (the (crun es c))"
  by (cases "crun es c") simp_all

lemma orun_Some_the: "map_option f (orun es c) = Some x \<Longrightarrow> orun es c = Some (the (orun es c))"
  by (cases "orun es c") simp_all

lemma map_option_the: "map_option f y = Some x \<Longrightarrow> f (the y) = x"
  by (cases y) simp_all

text \<open>
  Claim C2, as amended. In the controller, the keys being reconciled at any instant
  of a run are distinct: no two workers reconcile the same key, and at most as many
  keys are in progress as \<open>Run\<close> was asked to start workers (the work queue, modelled
  from the specification, never hands out a key that is in flight). The
  orchestrator's workers take whatever task is next on the channel: the tasks being
  handled at any instant are at most as many as the workers, with no exclusion per
  key.
\<close>

theorem one_reconcile_per_key:
  assumes "NewController ke de ns base cap w = Inr c0" and "crun es c0 = Some s"
    and "orun oes (NewOrchestrator adapter ons count) = Some os"
  shows "distinct (in_progress (workers s)) \<and>
         (\<forall>i j key. i < length (workers s) \<and> j < length (workers s) \<and>
             workers s ! i = Reconciling key \<and> workers s ! j = Reconciling key \<longrightarrow> i = j) \<and>
         length (in_progress (workers s)) \<le> nat (run_workers s) \<and>
         length (being_handled (oworkers os)) \<le> nat count"
  using controller_exclusion [OF assms(1,2)] orchestrator_bound [OF assms(3)] by blast

theorem one_reconcile_per_key_witness:
  "NewController None None ''default'' 5 1000000 empty_cluster = Inr controller_new \<and>
   crun run_two_keys controller_new = Some (the (crun run_two_keys controller_new)) \<and>
   orun [Submit task_create_a1, Worker_receives 0] (NewOrchestrator empty_cluster ''default'' 2)
     = Some (the (orun [Submit task_create_a1, Worker_receives 0]
                   (NewOrchestrator empty_cluster ''default'' 2))) \<and>
   in_progress (workers (the (crun run_two_keys controller_new)))
     = [''default/a1'', ''default/a2''] \<and>
   distinct (in_progress (workers (the (crun run_two_keys controller_new)))) \<and>
   length (being_handled (oworkers (the (orun [Submit task_create_a1, Worker_receives 0]
       (NewOrchestrator empty_cluster ''default'' 2))))) \<le> nat 2"
proof -
  have n: "NewController None None ''default'' 5 1000000 empty_cluster = Inr controller_new"
    by (simp add: NewController_def controller_new_def)
  have w: "map_option workers (crun run_two_keys controller_new)
     = Some [Reconciling ''default/a1'', Reconciling ''default/a2'']"
    by (simp add: run_two_keys_def run_defs)
  note r = crun_Some_the [OF w]
  have "map_option oworkers (orun [Submit task_create_a1, Worker_receives 0]
      (NewOrchestrator empty_cluster ''default'' 2)) = Some [Handling task_create_a1, Selecting]"
    by (simp add: orch_defs)
  note o = orun_Some_the [OF this]
  from map_option_the [OF w]
  have p: "in_progress (workers (the (crun run_two_keys controller_new)))
     = [''default/a1'', ''default/a2'']"
    by (simp add: in_progress_def)
  from n r o p one_reconcile_per_key [OF n r o] show ?thesis by blast
qed

text \<open>
  Claim C2 as stated fails on the orchestrator: two tasks for the same tenant and
  agent are on the channel, each of the two workers receives one, and both are being
  handled at the same instant: the adapter is invoked concurrently for one key.
\<close>

theorem orchestrator_handles_one_key_twice:
  "map_option oworkers
     (orun [Submit task_create_a1, Submit task_update_a1, Worker_receives 0, Worker_receives 1]
        (NewOrchestrator empty_cluster ''default'' 2))
     = Some [Handling task_create_a1, Handling task_update_a1] \<and>
   task_key task_create_a1 = task_key task_update_a1"
  by (simp add: orch_defs task_key_def)

text \<open>
  Claim C3, as amended. In every state of a controller's run the work queue
  (modelled from the specification) holds no key twice and no key that is in
  flight. Enqueuing a key that is in flight, once or many times, makes \<open>Done\<close> put it
  back exactly once: after \<open>Done\<close> the key is pending once, not dirty and not in
  flight; with no such enqueue \<open>Done\<close> puts nothing back. The orchestrator's
  \<open>SubmitTask\<close> does not deduplicate: on an open channel with room it appends the
  task, whatever the channel holds.
\<close>

theorem queue_holds_no_key_twice:
  assumes "NewController ke de ns base cap w = Inr c0" and "crun es c0 = Some s"
  shows "distinct (pending (queue s)) \<and>
         set (pending (queue s)) \<inter> inflight (queue s) = {} \<and>
         (\<forall>key n. key \<in> inflight (queue s) \<and> \<not> closed (queue s) \<longrightarrow>
            pending (Done key ((Enqueue key ^^ Suc n) (queue s))) = pending (queue s) @ [key] \<and>
            key \<notin> set (pending (queue s)) \<and>
            key \<notin> dirty (Done key ((Enqueue key ^^ Suc n) (queue s))) \<and>
            key \<notin> inflight (Done key ((Enqueue key ^^ Suc n) (queue s)))) \<and>
         (\<forall>key. key \<notin> dirty (queue s) \<longrightarrow> pending (Done key (queue s)) = pending (queue s)) \<and>
         (\<forall>t orc. \<not> taskQueue_closed orc \<and> length (taskQueue orc) < taskQueue_cap \<longrightarrow>
            SubmitTask t orc = Returned (orc\<lparr>taskQueue := taskQueue orc @ [t]\<rparr>))"
proof -
  from ctrl_ok_crun [OF ctrl_ok_New [OF assms(1)] assms(2)]
  have q: "queue_ok (queue s)" by (simp add: ctrl_ok_def)
  then have a: "distinct (pending (queue s))"
    and b: "set (pending (queue s)) \<inter> inflight (queue s) = {}"
    by (simp_all add: queue_ok_def)
  have c: "\<forall>t orc. \<not> taskQueue_closed orc \<and> length (taskQueue orc) < taskQueue_cap \<longrightarrow>
            SubmitTask t orc = Returned (orc\<lparr>taskQueue := taskQueue orc @ [t]\<rparr>)"
    by (simp add: SubmitTask_def)
  from a b c coalesce_inflight [OF q] no_enqueue_no_rerun [OF q] show ?thesis by blast
qed

theorem queue_holds_no_key_twice_witness:
  "NewController None None ''default'' 5 1000000 empty_cluster = Inr controller_new \<and>
   crun run_notified_in_flight controller_new
     = Some (the (crun run_notified_in_flight controller_new)) \<and>
   ''default/a1'' \<in> inflight (queue (the (crun run_notified_in_flight controller_new))) \<and>
   \<not> closed (queue (the (crun run_notified_in_flight controller_new))) \<and>
   pending (queue (the (crun run_notified_in_flight controller_new))) = [] \<and>
   pending (Done ''default/a1'' ((Enqueue ''default/a1'' ^^ Suc 2)
       (queue (the (crun run_notified_in_flight controller_new)))))
     = pending (queue (the (crun run_notified_in_flight controller_new))) @ [''default/a1'']"
proof -
  have n: "NewController None None ''default'' 5 1000000 empty_cluster = Inr controller_new"
    by (simp add: NewController_def controller_new_def)
  have w: "map_option (\<lambda>s. (pending (queue s), inflight (queue s), dirty (queue s),
       closed (queue s))) (crun run_notified_in_flight controller_new)
     = Some ([], {''default/a1''}, {''default/a1''}, False)"
    by (simp add: run_notified_in_flight_def run_defs)
  note r = crun_Some_the [OF w]
  from map_option_the [OF w]
  have i: "''default/a1'' \<in> inflight (queue (the (crun run_notified_in_flight controller_new)))"
    and c: "\<not> closed (queue (the (crun run_notified_in_flight controller_new)))"
    and p: "pending (queue (the (crun run_notified_in_flight controller_new))) = []"
    by simp_all
  from n r i c p queue_holds_no_key_twice [OF n r] show ?thesis by blast
qed

text \<open>
  Claim C3 as stated fails on the orchestrator: the same task submitted twice is on
  the channel twice.
\<close>

theorem orchestrator_queues_one_key_twice:
  "map_option taskQueue
     (orun [Submit task_create_a1, Submit task_create_a1]
        (NewOrchestrator empty_cluster ''default'' 2))
     = Some [task_create_a1, task_create_a1]"
  by (simp add: orch_defs)

text \<open>
  Claim C6. In every run of a controller, an event of a worker goroutine (the head of
  its \<open>wait.Until\<close> loop, a \<open>queue.Get\<close> that returns, the reconcile of an item) comes
  after the informer has synced and \<open>WaitForCacheSync\<close> has returned true. When
  \<open>WaitForCacheSync\<close> returns false, or the informer never syncs, the run has no
  worker and no worker event at all: nothing is dequeued or reconciled.
\<close>

theorem workers_start_after_cache_sync:
  assumes "NewController ke de ns base cap w = Inr c0" and "crun es c0 = Some s"
  shows "(\<forall>pre e post. es = pre @ e # post \<and> worker_event e \<longrightarrow>
            Informer_synced \<in> set pre \<and> Sync_true \<in> set pre) \<and>
         (Sync_false \<in> set es \<or> Informer_synced \<notin> set es \<longrightarrow>
            workers s = [] \<and> (\<forall>e \<in> set es. \<not> worker_event e))"
proof -
  have "Informer_synced \<in> set pre \<and> Sync_true \<in> set pre"
    if "es = pre @ e # post" and "worker_event e" for pre e post
    using worker_event_after_sync [OF assms(1) assms(2) [unfolded that(1)] that(2)] .
  moreover have "workers s = [] \<and> (\<forall>e \<in> set es. \<not> worker_event e)"
    if "Sync_false \<in> set es \<or> Informer_synced \<notin> set es"
    using no_sync_no_worker [OF assms that] .
  ultimately show ?thesis by blast
qed

theorem workers_start_after_cache_sync_witness:
  "NewController None None ''default'' 5 1000000 empty_cluster = Inr controller_new \<and>
   crun run_sync_fails controller_new = Some (the (crun run_sync_fails controller_new)) \<and>
   Sync_false \<in> set run_sync_fails \<and>
   workers (the (crun run_sync_fails controller_new)) = [] \<and>
   crun run_two_keys controller_new = Some (the (crun run_two_keys controller_new)) \<and>
   run_two_keys = take 5 run_two_keys @ Until_loop 0 # drop 6 run_two_keys \<and>
   worker_event (Until_loop 0) \<and>
   Informer_synced \<in> set (take 5 run_two_keys)"
proof -
  have n: "NewController None None ''default'' 5 1000000 empty_cluster = Inr controller_new"
    by (simp add: NewController_def controller_new_def)
  have "map_option workers (crun run_sync_fails controller_new) = Some []"
    by (simp add: run_sync_fails_def run_defs)
  note r1 = crun_Some_the [OF this]
  have f: "Sync_false \<in> set run_sync_fails" by (simp add: run_sync_fails_def)
  have "map_option workers (crun run_two_keys controller_new)
     = Some [Reconciling ''default/a1'', Reconciling ''default/a2'']"
    by (simp add: run_two_keys_def run_defs)
  note r2 = crun_Some_the [OF this]
  have sp: "run_two_keys = take 5 run_two_keys @ Until_loop 0 # drop 6 run_two_keys"
    by (simp add: run_two_keys_def)
  have we: "worker_event (Until_loop 0)" by simp
  from n r1 f r2 sp we
    workers_start_after_cache_sync [OF n r1] workers_start_after_cache_sync [OF n r2]
  show ?thesis by blast
qed

text \<open>
  Claim C7, as amended. In every state of an orchestrator: a worker that is handling
  a task stays with it until its \<open>handleTask\<close> call has returned; a worker returns
  only from its \<open>select\<close>, between tasks, and only once the context has been
  cancelled; and when \<open>Shutdown\<close> has returned, every worker has returned.
\<close>

theorem shutdown_waits_for_workers:
  assumes "orun es (NewOrchestrator adapter ns count) = Some s"
  shows "(shutdown_at s = Closed \<longrightarrow> list_all (\<lambda>w. w = Stopped) (oworkers s)) \<and>
         (\<forall>e s' i t. ofire e s = Some s' \<and> i < length (oworkers s) \<and>
             oworkers s ! i = Handling t \<longrightarrow>
             oworkers s' ! i = Handling t \<or>
             (e = Worker_handles i \<and> oworkers s' ! i = Selecting \<and>
              (\<exists>r c. handleTask t s = Returned (r, c)))) \<and>
         (\<forall>e s' i. ofire e s = Some s' \<and> i < length (oworkers s) \<and>
             oworkers s ! i \<noteq> Stopped \<and> oworkers s' ! i = Stopped \<longrightarrow>
             e = Worker_stops i \<and> oworkers s ! i = Selecting \<and> ctx_done s)"
proof -
  have a: "shutdown_at s = Closed \<longrightarrow> list_all (\<lambda>w. w = Stopped) (oworkers s)"
    using shutdown_after_workers [OF assms] by (simp add: list_all_iff)
  from a handling_until_handled [of _ s] stops_only_from_select [of _ s] show ?thesis
    by blast
qed

theorem shutdown_waits_for_workers_witness:
  "orun orchestrator_drains (NewOrchestrator empty_cluster ''default'' 1)
     = Some (the (orun orchestrator_drains (NewOrchestrator empty_cluster ''default'' 1))) \<and>
   shutdown_at (the (orun orchestrator_drains (NewOrchestrator empty_cluster ''default'' 1)))
     = Closed \<and>
   list_all (\<lambda>w. w = Stopped)
     (oworkers (the (orun orchestrator_drains (NewOrchestrator empty_cluster ''default'' 1))))"
proof -
  have w: "map_option shutdown_at
     (orun orchestrator_drains (NewOrchestrator empty_cluster ''default'' 1)) = Some Closed"
    by (simp add: orchestrator_drains_def orch_defs handleTask_def DeployAgent_def
        deployments_Create_def api_call_def next_fault_def)
  note r = orun_Some_the [OF w]
  note c = map_option_the [OF w]
  from r c shutdown_waits_for_workers [OF r] show ?thesis by blast
qed

text \<open>
  Claim C7 as stated fails: a task is on the channel when \<open>Shutdown\<close> cancels the
  context, and the worker, whose \<open>select\<close> has both cases ready, receives the task:
  it has pulled a new item after shutdown was requested.
\<close>

theorem worker_receives_after_cancel:
  "map_option (\<lambda>s. (ctx_done s, shutdown_at s, oworkers s))
     (orun [Submit task_create_a1, Shutdown_called, Worker_receives 0]
        (NewOrchestrator empty_cluster ''default'' 1))
     = Some (True, Waiting, [Handling task_create_a1])"
  by (simp add: orch_defs)

text \<open>
  Claim C9: the code fails it. After \<open>Shutdown\<close> has returned the channel is closed,
  and \<open>SubmitTask\<close> panics with a send on a closed channel: the process ends.
\<close>

theorem SubmitTask_after_Shutdown_panics:
  "map_option shutdown_at
     (orun orchestrator_shut_down (NewOrchestrator empty_cluster ''default'' 2)) = Some Closed \<and>
   map_option (SubmitTask task_create_a1)
     (orun orchestrator_shut_down (NewOrchestrator empty_cluster ''default'' 2))
     = Some (Panicked ''send on closed channel'') \<and>
   map_option crashed
     (orun (orchestrator_shut_down @ [Submit task_create_a1])
        (NewOrchestrator empty_cluster ''default'' 2))
     = Some (Some ''send on closed channel'')"
  by (simp add: orchestrator_shut_down_def orch_defs)

text \<open>A second call of \<open>Shutdown\<close> closes the closed channel and panics.\<close>

lemma Shutdown_twice_panics:
  "map_option crashed
     (orun (orchestrator_shut_down @ [Shutdown_called, Shutdown_returns])
        (NewOrchestrator empty_cluster ''default'' 2))
     = Some (Some ''close of closed channel'')"
  by (simp add: orchestrator_shut_down_def orch_defs)

end
